theory Spec2Isabelle
  imports Main "HOL-Library.AList"
begin

section \<open>Data model\<close>

text \<open>
  The two scripts work on JSON documents. A JSON value is modelled as a datatype; numbers
  are Python ints (no claim inspects a float, which would only be carried through).
\<close>

datatype jval =
    JNull
  | JBool bool
  | JInt int
  | JStr string
  | JList "jval list"
  | JObj "(string \<times> jval) list"

text \<open>
  A Python dict with string keys is an association list in insertion order. A key is
  stored with \<open>AList.update\<close> (replace in place when the key is present, append
  otherwise) and read with \<open>map_of\<close>.
\<close>

type_synonym 'v dict = "(string \<times> 'v) list"

text \<open>A node of the flattened document: \<open>{'class_type': ..., 'inputs': {...}}\<close>.\<close>

record fnode =
  class_type :: string
  inputs :: "jval dict"

section \<open>Subset extraction (build\_aio\_workflows.py)\<close>

text \<open>
  The test of line 18:
  \<^verbatim>\<open>isinstance(val, list) and len(val) == 2 and isinstance(val[0], str)\<close>.
\<close>

fun is_reference :: "jval \<Rightarrow> bool" where
  "is_reference (JList [JStr p, s]) = True"
| "is_reference v = False"

text \<open>\<open>val[0]\<close> of a value that passed the test.\<close>

fun producer :: "jval \<Rightarrow> string" where
  "producer (JList (JStr p # rest)) = p"
| "producer v = []"

text \<open>
  Lines 16 to 22: the loop that fills \<open>clean\<close>. \<open>inputs.items()\<close> yields every key
  once, so each assignment \<open>clean[key] = val\<close> adds a new entry at the end. The
  source's parameter \<open>subset\<close> is called \<open>keep\<close> here (\<open>subset\<close> is a constant of
  HOL).
\<close>

fun clean :: "string set \<Rightarrow> jval dict \<Rightarrow> jval dict" where
  "clean keep [] = []"
| "clean keep ((key, val) # rest) =
     (if is_reference val then
        (if producer val \<in> keep then (key, val) # clean keep rest
         else clean keep rest)
      else (key, val) # clean keep rest)"

text \<open>
  \<open>build\<close> keeps node objects, not copies: \<open>out\<close> holds the same objects as
  \<open>prompt\<close>, and line 23 assigns to the \<open>inputs\<close> key of such an object. The model
  therefore has a store of node objects; \<open>prompt\<close> and \<open>out\<close> map node ids to
  addresses in it.
\<close>

type_synonym addr = nat
type_synonym heap = "addr \<Rightarrow> fnode"

text \<open>Lines 14 to 23: the loop over \<open>out.items()\<close>, updating the store.\<close>

fun build_loop :: "string set \<Rightarrow> addr dict \<Rightarrow> heap \<Rightarrow> heap" where
  "build_loop keep [] h = h"
| "build_loop keep ((nid, a) # rest) h =
     build_loop keep rest (h(a := (h a)\<lparr>inputs := clean keep (inputs (h a))\<rparr>))"

text \<open>What \<open>json.dump\<close> writes for a dict of node objects.\<close>

definition dump :: "heap \<Rightarrow> addr dict \<Rightarrow> fnode dict" where
  "dump h d = map (\<lambda>(nid, a). (nid, h a)) d"

text \<open>
  \<open>build(subset, out_path)\<close>: the document written to \<open>out_path\<close>, and the store
  as the call leaves it.
\<close>

definition build :: "addr dict \<Rightarrow> heap \<Rightarrow> string set \<Rightarrow> fnode dict \<times> heap" where
  "build prompt h keep =
     (let out = filter (\<lambda>(nid, a). nid \<in> keep) prompt;
          h' = build_loop keep out h
      in (dump h' out, h'))"

text \<open>
  The document \<open>build\<close> writes, as a function of the document \<open>prompt\<close> holds:
  lines 13 to 23 on values.
\<close>

definition extract_doc :: "fnode dict \<Rightarrow> string set \<Rightarrow> fnode dict" where
  "extract_doc flat keep =
     map (\<lambda>(nid, node). (nid, node\<lparr>inputs := clean keep (inputs node)\<rparr>))
       (filter (\<lambda>(nid, node). nid \<in> keep) flat)"

section \<open>The compiler (convert\_aio.py)\<close>

subsection \<open>The raw graph\<close>

text \<open>
  An entry of a node's \<open>inputs\<close> array: \<open>inp['name']\<close>, \<open>inp.get('link')\<close>
  (\<open>None\<close> when absent or null) and the truth value of \<open>inp.get('widget')\<close>.
\<close>

record raw_input =
  name :: string
  link :: "int option"
  widget :: bool

text \<open>
  \<open>node.get('widgets_values')\<close>: a list, a dict, or neither (absent, null or any other
  value: both \<open>isinstance\<close> tests fail).
\<close>

datatype widgets = WList "jval list" | WDict "jval dict" | WNone

record raw_node =
  node_id :: int
  node_type :: string
  node_inputs :: "raw_input list"
  widgets_values :: widgets

text \<open>An entry of \<open>data['links']\<close>: \<open>l[0]\<close> to \<open>l[4]\<close>.\<close>

record raw_link =
  link_id :: int
  producer_node_id :: int
  producer_slot_index :: int
  consumer_node_id :: int
  consumer_slot_index :: int

record raw_graph =
  data_nodes :: "raw_node list"
  data_links :: "raw_link list"

datatype error = KeyError int | ValueError

subsection \<open>Python's \<open>str\<close> on integers\<close>

fun str_nat :: "nat \<Rightarrow> string" where
  "str_nat n =
     (if n < 10 then [''0123456789'' ! n]
      else str_nat (n div 10) @ [''0123456789'' ! (n mod 10)])"

declare str_nat.simps [simp del]

definition str_int :: "int \<Rightarrow> string" where
  "str_int i = (if i < 0 then CHR ''-'' # str_nat (nat (- i)) else str_nat (nat i))"

text \<open>
  The arguments of \<open>set_link\<close> go through \<open>str\<close>; the script passes strings, on
  which \<open>str\<close> is the identity, and an int would do as well.
\<close>

datatype py_id = IdInt int | IdStr string

fun str :: "py_id \<Rightarrow> string" where
  "str (IdInt i) = str_int i"
| "str (IdStr s) = s"

subsection \<open>The base pass\<close>

text \<open>Line 11: \<open>links = {l[0]: l for l in data['links']}\<close>; a later entry replaces an
  earlier one with the same id.\<close>

definition links_index :: "raw_link list \<Rightarrow> (int \<rightharpoonup> raw_link)" where
  "links_index ls = fold (\<lambda>l m. m(link_id l \<mapsto> l)) ls Map.empty"

text \<open>Lines 28 to 35: the dict built for a KSampler node with a list of widgets.\<close>

definition ksampler_mapping :: "jval list \<Rightarrow> jval dict" where
  "ksampler_mapping ws =
     [(''seed'', if length ws > 0 then ws ! 0 else JInt 0),
      (''steps'', if length ws > 2 then ws ! 2 else JInt 4),
      (''cfg'', if length ws > 3 then ws ! 3 else JInt 5),
      (''sampler_name'', if length ws > 4 then ws ! 4 else JStr ''euler''),
      (''scheduler'', if length ws > 5 then ws ! 5 else JStr ''beta''),
      (''denoise'', if length ws > 6 then ws ! 6 else JInt 1)]"

text \<open>Lines 26 to 35: \<open>mapping\<close>, \<open>None\<close> unless the node is a KSampler with a list.\<close>

fun mapping :: "string \<Rightarrow> widgets \<Rightarrow> jval dict option" where
  "mapping ty (WList ws) = (if ty = ''KSampler'' then Some (ksampler_mapping ws) else None)"
| "mapping ty w = None"

fun is_list :: "widgets \<Rightarrow> bool" where
  "is_list (WList ws) = True"
| "is_list w = False"

text \<open>The reference \<open>[src_id, src_slot]\<close> of line 43.\<close>

definition reference :: "string \<Rightarrow> int \<Rightarrow> jval" where
  "reference src_id src_slot = JList [JStr src_id, JInt src_slot]"

text \<open>
  Lines 51 to 57: the keyed and the positional branch, reached when the override does
  not apply. The result is the value to store under the input's name, if any, and the
  cursor \<open>widget_idx\<close> afterwards.
\<close>

fun fallback :: "widgets \<Rightarrow> string \<Rightarrow> nat \<Rightarrow> jval option \<times> nat" where
  "fallback (WDict d) nm widget_idx = (map_of d nm, widget_idx)"
| "fallback (WList ws) nm widget_idx =
     (if widget_idx < length ws then Some (ws ! widget_idx) else None, widget_idx + 1)"
| "fallback WNone nm widget_idx = (None, widget_idx)"

text \<open>
  Lines 38 to 57, the body of the loop over a node's inputs, for one input: the value it
  stores under the input's name (if any) and the cursor afterwards, or the
  \<open>KeyError\<close> of \<open>links[inp['link']]\<close>.
\<close>

definition resolve :: "(int \<rightharpoonup> raw_link) \<Rightarrow> widgets \<Rightarrow> jval dict option \<Rightarrow> raw_input \<Rightarrow> nat
    \<Rightarrow> error + (jval option \<times> nat)" where
  "resolve links widgets mp inp widget_idx =
     (case link inp of
        Some l \<Rightarrow>
          (case links l of
             None \<Rightarrow> Inl (KeyError l)
           | Some lk \<Rightarrow>
               Inr (Some (reference (str_int (producer_node_id lk)) (producer_slot_index lk)),
                    if widget inp \<and> is_list widgets then widget_idx + 1 else widget_idx))
      | None \<Rightarrow>
          (if widget inp then
             (case mp of
                Some m \<Rightarrow>
                  (case map_of m (name inp) of
                     Some v \<Rightarrow> Inr (Some v, widget_idx)
                   | None \<Rightarrow> Inr (fallback widgets (name inp) widget_idx))
              | None \<Rightarrow> Inr (fallback widgets (name inp) widget_idx))
           else Inr (None, widget_idx)))"

text \<open>The assignment \<open>entry['inputs'][name] = v\<close>, when there is a value.\<close>

fun store :: "string \<Rightarrow> jval option \<Rightarrow> jval dict \<Rightarrow> jval dict" where
  "store nm None ins = ins"
| "store nm (Some v) ins = AList.update nm v ins"

text \<open>Lines 37 to 57: the loop over the inputs, on \<open>entry['inputs']\<close> and the cursor.\<close>

fun input_loop :: "(int \<rightharpoonup> raw_link) \<Rightarrow> widgets \<Rightarrow> jval dict option \<Rightarrow> raw_input list
    \<Rightarrow> jval dict \<times> nat \<Rightarrow> error + (jval dict \<times> nat)" where
  "input_loop links widgets mp [] st = Inr st"
| "input_loop links widgets mp (inp # rest) (ins, widget_idx) =
     (case resolve links widgets mp inp widget_idx of
        Inl e \<Rightarrow> Inl e
      | Inr (v, widget_idx') \<Rightarrow>
          input_loop links widgets mp rest (store (name inp) v ins, widget_idx'))"

text \<open>Lines 16 to 57: the key and the entry of one node.\<close>

definition compile_node :: "(int \<rightharpoonup> raw_link) \<Rightarrow> raw_node \<Rightarrow> error + (string \<times> fnode)" where
  "compile_node links node =
     (case input_loop links (widgets_values node)
             (mapping (node_type node) (widgets_values node)) (node_inputs node) ([], 0) of
        Inl e \<Rightarrow> Inl e
      | Inr (ins, widget_idx) \<Rightarrow>
          Inr (str_int (node_id node), \<lparr>class_type = node_type node, inputs = ins\<rparr>))"

text \<open>Lines 15 to 59: the loop over the nodes, on \<open>prompt\<close>.\<close>

fun node_loop :: "(int \<rightharpoonup> raw_link) \<Rightarrow> raw_node list \<Rightarrow> fnode dict \<Rightarrow> error + fnode dict" where
  "node_loop links [] prompt = Inr prompt"
| "node_loop links (node # rest) prompt =
     (case compile_node links node of
        Inl e \<Rightarrow> Inl e
      | Inr (nid, entry) \<Rightarrow> node_loop links rest (AList.update nid entry prompt))"

subsection \<open>Post-processing\<close>

text \<open>Lines 62 to 65: the model file name of every UnetLoaderGGUF node.\<close>

definition update_unet :: "fnode dict \<Rightarrow> fnode dict" where
  "update_unet prompt =
     map (\<lambda>(nid, node).
            (nid,
             if class_type node = ''UnetLoaderGGUF'' \<and> map_of (inputs node) ''unet_name'' \<noteq> None
             then node\<lparr>inputs := AList.update ''unet_name''
                    (JStr ''wan2.2-rapid-mega-aio-nsfw-v12.1-Q8_0.gguf'') (inputs node)\<rparr>
             else node))
       prompt"

text \<open>Line 68: \<open>max\<close> of an empty sequence raises \<open>ValueError\<close>.\<close>

fun max_id :: "raw_node list \<Rightarrow> error + int" where
  "max_id [] = Inl ValueError"
| "max_id (n # ns) = Inr (fold max (map node_id ns) (node_id n))"

text \<open>Lines 71 to 75: the id of the first CLIPLoader node of \<open>prompt\<close>.\<close>

definition clip_loader_id :: "fnode dict \<Rightarrow> string option" where
  "clip_loader_id prompt =
     map_option fst (find (\<lambda>(nid, node). class_type node = ''CLIPLoader'') prompt)"

text \<open>Lines 77 to 84; an empty string is false in \<open>if clip_loader_id:\<close>.\<close>

definition add_negative :: "string \<Rightarrow> fnode dict \<Rightarrow> fnode dict" where
  "add_negative neg_id prompt =
     (case clip_loader_id prompt of
        None \<Rightarrow> prompt
      | Some c \<Rightarrow>
          (if c = [] then prompt
           else AList.update neg_id
                  \<lparr>class_type = ''CLIPTextEncode'',
                   inputs = [(''clip'', reference c 0), (''text'', JStr [])]\<rparr> prompt))"

text \<open>
  Lines 88 to 92. A node of \<open>prompt\<close> is a dict with two keys, never false, so
  \<open>not node\<close> holds exactly when the id is absent.
\<close>

definition set_link :: "py_id \<Rightarrow> string \<Rightarrow> py_id \<Rightarrow> int \<Rightarrow> fnode dict \<Rightarrow> fnode dict" where
  "set_link nid input_name src_id src_slot prompt =
     (case map_of prompt (str nid) of
        None \<Rightarrow> prompt
      | Some node \<Rightarrow>
          AList.update (str nid)
            (node\<lparr>inputs := AList.update input_name (reference (str src_id) src_slot) (inputs node)\<rparr>)
            prompt)"

text \<open>Lines 96 to 110, in the order of the script.\<close>

definition wiring :: "string \<Rightarrow> fnode dict \<Rightarrow> fnode dict" where
  "wiring neg_id prompt =
     (set_link (IdStr ''54'') ''negative'' (IdStr neg_id) 0
      (set_link (IdStr ''28'') ''negative'' (IdStr neg_id) 0
      (set_link (IdStr ''54'') ''positive'' (IdStr ''9'') 0
      (set_link (IdStr ''28'') ''positive'' (IdStr ''9'') 0
      (set_link (IdStr ''56'') ''vae'' (IdStr ''53'') 0
      (set_link (IdStr ''11'') ''vae'' (IdStr ''53'') 0
      (set_link (IdStr ''54'') ''vae'' (IdStr ''53'') 0
      (set_link (IdStr ''28'') ''vae'' (IdStr ''53'') 0
      (set_link (IdStr ''55'') ''model'' (IdStr ''32'') 0
      (set_link (IdStr ''8'') ''model'' (IdStr ''32'') 0 prompt))))))))))"

text \<open>The base pass alone: lines 10 to 59.\<close>

definition base_pass :: "raw_graph \<Rightarrow> error + fnode dict" where
  "base_pass data = node_loop (links_index (data_links data)) (data_nodes data) []"

text \<open>The whole script: the document it writes, or the exception that ends it.\<close>

definition convert :: "raw_graph \<Rightarrow> error + fnode dict" where
  "convert data =
     (case base_pass data of
        Inl e \<Rightarrow> Inl e
      | Inr prompt \<Rightarrow>
          (case max_id (data_nodes data) of
             Inl e \<Rightarrow> Inl e
           | Inr m \<Rightarrow>
               Inr (wiring (str_int (m + 1))
                     (add_negative (str_int (m + 1)) (update_unet prompt)))))"


section \<open>Referential integrity of a document\<close>

text \<open>
  The invariant of the flattened graph: every input value that is a reference (by the
  test of \<open>build\<close>, the only one the scripts have) names a key of the document.
\<close>

definition no_dangling :: "fnode dict \<Rightarrow> bool" where
  "no_dangling flat =
     (\<forall>(nid, node) \<in> set flat. \<forall>(key, val) \<in> set (inputs node).
        is_reference val \<longrightarrow> producer val \<in> fst ` set flat)"

text \<open>The literal values that a node's \<open>widgets_values\<close> holds.\<close>

fun widget_literals :: "widgets \<Rightarrow> jval list" where
  "widget_literals (WList ws) = ws"
| "widget_literals (WDict d) = map snd d"
| "widget_literals WNone = []"

section \<open>Properties of subset extraction\<close>

lemma clean_filter:
  "clean keep ins = filter (\<lambda>(key, val). is_reference val \<longrightarrow> producer val \<in> keep) ins"
  by (induction ins) (simp_all split: prod.splits)

lemma is_reference_iff: "is_reference v \<longleftrightarrow> (\<exists>p s. v = JList [JStr p, s])"
  by (cases v rule: is_reference.cases) simp_all

lemma producer_ref: "producer (JList [JStr p, s]) = p" by simp

lemma clean_idem: "clean keep (clean keep ins) = clean keep ins"
  by (simp add: clean_filter)

lemma clean_nested: "keep2 \<subseteq> keep1 \<Longrightarrow> clean keep2 (clean keep1 ins) = clean keep2 ins"
  by (induction ins) (auto split: prod.splits)

lemma build_loop_apply:
  "build_loop keep d h a =
     (if a \<in> snd ` set d then (h a)\<lparr>inputs := clean keep (inputs (h a))\<rparr> else h a)"
proof (induction d arbitrary: h)
  case Nil
  show ?case by simp
next
  case (Cons x d)
  obtain nid b where x: "x = (nid, b)" by (cases x)
  show ?case
    unfolding x by (simp add: Cons.IH clean_idem)
qed

text \<open>The document \<open>build\<close> writes is \<open>extract_doc\<close> of the document it was given.\<close>

lemma build_writes_extract_doc:
  "fst (build prompt h keep) = extract_doc (dump h prompt) keep"
proof -
  let ?out = "filter (\<lambda>(nid, a). nid \<in> keep) prompt"
  have "dump (build_loop keep ?out h) ?out =
        map (\<lambda>(nid, a). (nid, (h a)\<lparr>inputs := clean keep (inputs (h a))\<rparr>)) ?out"
    unfolding dump_def
    by (rule map_cong) (auto simp: build_loop_apply image_iff)
  also have "\<dots> = extract_doc (dump h prompt) keep"
    by (induction prompt) (auto simp: extract_doc_def dump_def)
  finally show ?thesis by (simp add: build_def Let_def)
qed


lemma set_extract_doc:
  "set (extract_doc flat keep) =
     (\<lambda>(nid, node). (nid, node\<lparr>inputs := clean keep (inputs node)\<rparr>)) `
       {(nid, node). (nid, node) \<in> set flat \<and> nid \<in> keep}"
  by (auto simp: extract_doc_def image_iff)

lemma keys_extract_doc: "fst ` set (extract_doc flat keep) = keep \<inter> fst ` set flat"
  by (force simp: set_extract_doc image_iff)

text \<open>
  Claim C1 says that subset extraction leaves the flattened graph it reads unchanged.
  \<open>build\<close> does not: it assigns the pruned inputs to the node objects of \<open>prompt\<close>
  themselves. After \<open>build\<close> with the keep-set \<open>{"2"}\<close>, node \<open>"2"\<close> of the source
  map has lost its input \<open>y\<close>, and a second variant built from the same map with the
  keep-set \<open>{"1", "2"}\<close> is written without that input, although its producer \<open>"1"\<close>
  is kept.
\<close>

theorem build_mutates_source:
  "dump (snd (build [(''1'', 0), (''2'', 1)]
                (\<lambda>a. if a = 0 then \<lparr>class_type = ''TypeA'', inputs = [(''x'', JInt 5)]\<rparr>
                     else \<lparr>class_type = ''TypeB'', inputs = [(''y'', JList [JStr ''1'', JInt 0])]\<rparr>)
                {''2''}))
        [(''1'', 0), (''2'', 1)]
   = [(''1'', \<lparr>class_type = ''TypeA'', inputs = [(''x'', JInt 5)]\<rparr>),
      (''2'', \<lparr>class_type = ''TypeB'', inputs = []\<rparr>)]
   \<and> fst (build [(''1'', 0), (''2'', 1)]
          (snd (build [(''1'', 0), (''2'', 1)]
                (\<lambda>a. if a = 0 then \<lparr>class_type = ''TypeA'', inputs = [(''x'', JInt 5)]\<rparr>
                     else \<lparr>class_type = ''TypeB'', inputs = [(''y'', JList [JStr ''1'', JInt 0])]\<rparr>)
                {''2''}))
          {''1'', ''2''})
     = [(''1'', \<lparr>class_type = ''TypeA'', inputs = [(''x'', JInt 5)]\<rparr>),
        (''2'', \<lparr>class_type = ''TypeB'', inputs = []\<rparr>)]"
  by (simp add: build_def dump_def)

text \<open>
  Claim C4 as stated fails on a source map that refers to an id it does not hold: the
  reference is kept when that id is in the keep-set, and its producer is not a key of
  the result.
\<close>

theorem extract_doc_dangling_counterexample:
  "extract_doc [(''2'', \<lparr>class_type = ''TypeB'', inputs = [(''y'', JList [JStr ''1'', JInt 0])]\<rparr>)]
       {''1'', ''2''}
     = [(''2'', \<lparr>class_type = ''TypeB'', inputs = [(''y'', JList [JStr ''1'', JInt 0])]\<rparr>)]
   \<and> is_reference (JList [JStr ''1'', JInt 0])
   \<and> ''1'' \<notin> fst ` set (extract_doc
         [(''2'', \<lparr>class_type = ''TypeB'', inputs = [(''y'', JList [JStr ''1'', JInt 0])]\<rparr>)]
         {''1'', ''2''})"
  by (simp add: extract_doc_def)

text \<open>
  Claim C4, amended. The keys of the result are exactly the ids of the keep-set that are
  keys of the source map. Every reference-valued input of the result has its producer in
  the keep-set, and in the result's key set whenever the producer is a key of the source
  map. Every retained node keeps its class type and exactly those of its inputs that are
  literals or references into the keep-set, each unmodified; a dropped input is absent.
\<close>

theorem extract_doc_sound:
  "fst ` set (extract_doc flat keep) = keep \<inter> fst ` set flat
   \<and> (\<forall>nid node key val.
         (nid, node) \<in> set (extract_doc flat keep) \<and> (key, val) \<in> set (inputs node)
           \<and> is_reference val
         \<longrightarrow> producer val \<in> keep
             \<and> (producer val \<in> fst ` set flat
                  \<longrightarrow> producer val \<in> fst ` set (extract_doc flat keep)))
   \<and> set (extract_doc flat keep) =
        (\<lambda>(nid, node).
            (nid, node\<lparr>inputs := filter (\<lambda>(key, val). is_reference val \<longrightarrow> producer val \<in> keep)
                                    (inputs node)\<rparr>)) `
          {(nid, node). (nid, node) \<in> set flat \<and> nid \<in> keep}"
proof (intro conjI allI impI)
  show "fst ` set (extract_doc flat keep) = keep \<inter> fst ` set flat"
    by (rule keys_extract_doc)
next
  fix nid node key val
  assume a: "(nid, node) \<in> set (extract_doc flat keep) \<and> (key, val) \<in> set (inputs node)
      \<and> is_reference val"
  then obtain node0 where "node = node0\<lparr>inputs := clean keep (inputs node0)\<rparr>"
    by (auto simp: set_extract_doc)
  with a have "(key, val) \<in> set (clean keep (inputs node0))" by simp
  with a show k: "producer val \<in> keep" by (auto simp: clean_filter)
  assume "producer val \<in> fst ` set flat"
  with k show "producer val \<in> fst ` set (extract_doc flat keep)"
    by (simp add: keys_extract_doc)
next
  show "set (extract_doc flat keep) =
        (\<lambda>(nid, node).
            (nid, node\<lparr>inputs := filter (\<lambda>(key, val). is_reference val \<longrightarrow> producer val \<in> keep)
                                    (inputs node)\<rparr>)) `
          {(nid, node). (nid, node) \<in> set flat \<and> nid \<in> keep}"
    by (simp add: set_extract_doc clean_filter)
qed

text \<open>
  Claim C4 at a two-node map with a keep-set that names an absent id \<open>"3"\<close>: the
  reference to \<open>"1"\<close> is kept, the reference to \<open>"7"\<close> is dropped.
\<close>

theorem extract_doc_sound_witness:
  "fst ` set (extract_doc
      [(''1'', \<lparr>class_type = ''TypeA'', inputs = [(''x'', JInt 5)]\<rparr>),
       (''2'', \<lparr>class_type = ''TypeB'', inputs = [(''y'', JList [JStr ''1'', JInt 0]), (''z'', JList [JStr ''7'', JInt 0])]\<rparr>)]
      {''1'', ''2'', ''3''}) = {''1'', ''2''}
   \<and> (''2'', \<lparr>class_type = ''TypeB'', inputs = [(''y'', JList [JStr ''1'', JInt 0])]\<rparr>)
       \<in> set (extract_doc
      [(''1'', \<lparr>class_type = ''TypeA'', inputs = [(''x'', JInt 5)]\<rparr>),
       (''2'', \<lparr>class_type = ''TypeB'', inputs = [(''y'', JList [JStr ''1'', JInt 0]), (''z'', JList [JStr ''7'', JInt 0])]\<rparr>)]
      {''1'', ''2'', ''3''})
   \<and> is_reference (JList [JStr ''1'', JInt 0])
   \<and> producer (JList [JStr ''1'', JInt 0]) \<in> {''1'', ''2'', ''3''}
   \<and> producer (JList [JStr ''1'', JInt 0]) \<in> fst ` set (extract_doc
      [(''1'', \<lparr>class_type = ''TypeA'', inputs = [(''x'', JInt 5)]\<rparr>),
       (''2'', \<lparr>class_type = ''TypeB'', inputs = [(''y'', JList [JStr ''1'', JInt 0]), (''z'', JList [JStr ''7'', JInt 0])]\<rparr>)]
      {''1'', ''2'', ''3''})"
proof -
  let ?flat = "[(''1'', \<lparr>class_type = ''TypeA'', inputs = [(''x'', JInt 5)]\<rparr>),
       (''2'', \<lparr>class_type = ''TypeB'', inputs = [(''y'', JList [JStr ''1'', JInt 0]), (''z'', JList [JStr ''7'', JInt 0])]\<rparr>)]"
  let ?keep = "{''1'', ''2'', ''3''}"
  let ?node = "\<lparr>class_type = ''TypeB'', inputs = [(''y'', JList [JStr ''1'', JInt 0])]\<rparr>"
  let ?val = "JList [JStr ''1'', JInt 0]"
  note sound = extract_doc_sound [of ?flat ?keep]
  from sound have "fst ` set (extract_doc ?flat ?keep) = ?keep \<inter> fst ` set ?flat"
    by (elim conjE)
  then have keys: "fst ` set (extract_doc ?flat ?keep) = {''1'', ''2''}"
    by simp
  have mem: "(''2'', ?node) \<in> set (extract_doc ?flat ?keep)"
    by (simp add: extract_doc_def)
  have hyp: "(''2'', ?node) \<in> set (extract_doc ?flat ?keep) \<and> (''y'', ?val) \<in> set (inputs ?node)
      \<and> is_reference ?val"
    using mem by simp
  have flat: "producer ?val \<in> fst ` set ?flat" by simp
  from sound have "\<forall>nid node key val.
         (nid, node) \<in> set (extract_doc ?flat ?keep) \<and> (key, val) \<in> set (inputs node)
           \<and> is_reference val
         \<longrightarrow> producer val \<in> ?keep
             \<and> (producer val \<in> fst ` set ?flat
                  \<longrightarrow> producer val \<in> fst ` set (extract_doc ?flat ?keep))"
    by (elim conjE)
  then have "producer ?val \<in> ?keep
             \<and> (producer ?val \<in> fst ` set ?flat
                  \<longrightarrow> producer ?val \<in> fst ` set (extract_doc ?flat ?keep))"
    using hyp by blast
  with flat have "producer ?val \<in> ?keep \<and> producer ?val \<in> fst ` set (extract_doc ?flat ?keep)"
    by blast
  with keys mem show ?thesis by simp
qed

text \<open>
  Claim C5: for keep-sets with \<open>keep2 \<subseteq> keep1\<close>, extracting with \<open>keep2\<close> from the source
  map equals extracting with \<open>keep2\<close> from the extraction with \<open>keep1\<close>.
\<close>

theorem extract_doc_monotone:
  "keep2 \<subseteq> keep1 \<Longrightarrow> extract_doc flat keep2 = extract_doc (extract_doc flat keep1) keep2"
  by (induction flat) (auto simp: extract_doc_def clean_nested)

text \<open>
  Claim C5 at the two-node map of the spec's scenario.
\<close>

theorem extract_doc_monotone_witness:
  "{''2''} \<subseteq> {''1'', ''2''}
   \<and> extract_doc [(''1'', \<lparr>class_type = ''TypeA'', inputs = [(''x'', JInt 5)]\<rparr>),
        (''2'', \<lparr>class_type = ''TypeB'', inputs = [(''y'', JList [JStr ''1'', JInt 0])]\<rparr>)] {''2''}
     = extract_doc (extract_doc [(''1'', \<lparr>class_type = ''TypeA'', inputs = [(''x'', JInt 5)]\<rparr>),
        (''2'', \<lparr>class_type = ''TypeB'', inputs = [(''y'', JList [JStr ''1'', JInt 0])]\<rparr>)] {''1'', ''2''}) {''2''}
   \<and> extract_doc [(''1'', \<lparr>class_type = ''TypeA'', inputs = [(''x'', JInt 5)]\<rparr>),
        (''2'', \<lparr>class_type = ''TypeB'', inputs = [(''y'', JList [JStr ''1'', JInt 0])]\<rparr>)] {''2''}
     = [(''2'', \<lparr>class_type = ''TypeB'', inputs = []\<rparr>)]"
proof -
  have h: "{''2''} \<subseteq> {''1'', ''2''}" by simp
  show ?thesis
    using h extract_doc_monotone [OF h, of
      "[(''1'', \<lparr>class_type = ''TypeA'', inputs = [(''x'', JInt 5)]\<rparr>),
        (''2'', \<lparr>class_type = ''TypeB'', inputs = [(''y'', JList [JStr ''1'', JInt 0])]\<rparr>)]"]
    by (simp add: extract_doc_def)
qed

text \<open>
  Claim C10: an input value is a reference exactly when it is a list of two elements
  whose first is a string, whatever the second is. Such a value stays in the cleaned
  inputs exactly when its first element is in the keep-set; a value of any other shape
  always stays. The extracted document is the source map restricted to the keep-set,
  with the inputs of each node filtered by that test.
\<close>

theorem reference_by_shape:
  "((key, JList [JStr p, s]) \<in> set (clean keep ins)
      \<longleftrightarrow> (key, JList [JStr p, s]) \<in> set ins \<and> p \<in> keep)
   \<and> ((\<nexists>q t. val = JList [JStr q, t])
        \<longrightarrow> ((key, val) \<in> set (clean keep ins) \<longleftrightarrow> (key, val) \<in> set ins))
   \<and> extract_doc flat keep =
        map (\<lambda>(nid, node).
               (nid, node\<lparr>inputs := filter (\<lambda>(key, val). \<forall>q t. val = JList [JStr q, t] \<longrightarrow> q \<in> keep)
                                       (inputs node)\<rparr>))
          (filter (\<lambda>(nid, node). nid \<in> keep) flat)"
proof -
  have cf: "clean keep xs = filter (\<lambda>(key, val). \<forall>q t. val = JList [JStr q, t] \<longrightarrow> q \<in> keep) xs"
    for xs
    unfolding clean_filter
    by (rule filter_cong) (auto simp: is_reference_iff)
  have 1: "(key, JList [JStr p, s]) \<in> set (clean keep ins)
      \<longleftrightarrow> (key, JList [JStr p, s]) \<in> set ins \<and> p \<in> keep"
    by (auto simp: cf)
  have 2: "(\<nexists>q t. val = JList [JStr q, t])
        \<longrightarrow> ((key, val) \<in> set (clean keep ins) \<longleftrightarrow> (key, val) \<in> set ins)"
    by (auto simp: cf)
  have 3: "extract_doc flat keep =
        map (\<lambda>(nid, node).
               (nid, node\<lparr>inputs := filter (\<lambda>(key, val). \<forall>q t. val = JList [JStr q, t] \<longrightarrow> q \<in> keep)
                                       (inputs node)\<rparr>))
          (filter (\<lambda>(nid, node). nid \<in> keep) flat)"
    by (simp add: extract_doc_def cf)
  show ?thesis
    by (intro conjI) (rule 1, rule 2, rule 3)
qed

text \<open>
  Claim C10 on four values: a pair whose second element is a string is dropped as a
  reference to \<open>"9"\<close>, a pair with \<open>null\<close> as second element is kept as a reference to
  \<open>"1"\<close>, a pair that starts with a number is kept as a literal.
\<close>

theorem reference_by_shape_witness:
  "(''a'', JList [JStr ''9'', JStr ''not a slot'']) \<notin>
      set (clean {''1''} [(''a'', JList [JStr ''9'', JStr ''not a slot'']),
                         (''b'', JList [JStr ''1'', JNull]),
                         (''c'', JList [JInt 9, JInt 0]),
                         (''d'', JList [JStr ''9'', JInt 0, JInt 0])])
   \<and> (''b'', JList [JStr ''1'', JNull]) \<in>
      set (clean {''1''} [(''a'', JList [JStr ''9'', JStr ''not a slot'']),
                         (''b'', JList [JStr ''1'', JNull]),
                         (''c'', JList [JInt 9, JInt 0]),
                         (''d'', JList [JStr ''9'', JInt 0, JInt 0])])
   \<and> (\<nexists>q t. JList [JInt 9, JInt 0] = JList [JStr q, t])
   \<and> (''c'', JList [JInt 9, JInt 0]) \<in>
      set (clean {''1''} [(''a'', JList [JStr ''9'', JStr ''not a slot'']),
                         (''b'', JList [JStr ''1'', JNull]),
                         (''c'', JList [JInt 9, JInt 0]),
                         (''d'', JList [JStr ''9'', JInt 0, JInt 0])])"
  using reference_by_shape [of "''a''" "''9''" "JStr ''not a slot''" "{''1''}"
      "[(''a'', JList [JStr ''9'', JStr ''not a slot'']),
                         (''b'', JList [JStr ''1'', JNull]),
                         (''c'', JList [JInt 9, JInt 0]),
                         (''d'', JList [JStr ''9'', JInt 0, JInt 0])]" "JList [JInt 9, JInt 0]"]
  by simp

section \<open>Properties of the compiler\<close>

subsection \<open>\<open>str\<close> is injective on integers\<close>

lemma digit_inj: "n < 10 \<Longrightarrow> m < 10 \<Longrightarrow> ''0123456789'' ! n = ''0123456789'' ! m \<Longrightarrow> n = m"
proof -
  assume a: "n < 10" "m < 10" "''0123456789'' ! n = ''0123456789'' ! m"
  have d: "distinct ''0123456789''" by simp
  have l: "length ''0123456789'' = 10" by simp
  from a d l show ?thesis by (metis nth_eq_iff_index_eq)
qed

lemma digit_not_minus: "n < 10 \<Longrightarrow> ''0123456789'' ! n \<noteq> CHR ''-''"
proof -
  assume "n < 10"
  then have "''0123456789'' ! n \<in> set ''0123456789''"
    by (intro nth_mem) simp
  then show ?thesis by auto
qed

lemma str_nat_nonempty: "str_nat n \<noteq> []"
  by (subst str_nat.simps) simp

lemma str_nat_length1: "length (str_nat n) = 1 \<longleftrightarrow> n < 10"
  by (subst str_nat.simps) (simp add: str_nat_nonempty)

lemma hd_str_nat: "hd (str_nat n) \<noteq> CHR ''-''"
proof (induction n rule: str_nat.induct)
  case (1 n)
  show ?case
  proof (cases "n < 10")
    case True
    then show ?thesis by (subst str_nat.simps) (simp add: digit_not_minus)
  next
    case False
    with 1 show ?thesis by (subst str_nat.simps) (simp add: str_nat_nonempty)
  qed
qed

lemma str_nat_inj: "str_nat n = str_nat m \<Longrightarrow> n = m"
proof (induction n arbitrary: m rule: str_nat.induct)
  case (1 n)
  from "1.prems" have len: "n < 10 \<longleftrightarrow> m < 10"
    by (metis str_nat_length1)
  show ?case
  proof (cases "n < 10")
    case True
    with len have m: "m < 10" by simp
    from "1.prems" True m have "''0123456789'' ! n = ''0123456789'' ! m"
      by (simp add: str_nat.simps [of n] str_nat.simps [of m])
    with True m show ?thesis by (simp add: digit_inj)
  next
    case False
    with len have m: "\<not> m < 10" by simp
    from "1.prems" False m
    have eq: "str_nat (n div 10) @ [''0123456789'' ! (n mod 10)]
            = str_nat (m div 10) @ [''0123456789'' ! (m mod 10)]"
      by (simp add: str_nat.simps [of n] str_nat.simps [of m])
    then have "str_nat (n div 10) = str_nat (m div 10)" by simp
    with "1.IH" False have d: "n div 10 = m div 10" by blast
    from eq have "''0123456789'' ! (n mod 10) = ''0123456789'' ! (m mod 10)" by simp
    then have "n mod 10 = m mod 10" by (intro digit_inj) simp_all
    with d show ?thesis by (metis div_mult_mod_eq)
  qed
qed

lemma str_int_inj: "str_int i = str_int j \<Longrightarrow> i = j"
proof -
  assume a: "str_int i = str_int j"
  have neg: "CHR ''-'' # xs \<noteq> str_nat k" "str_nat k \<noteq> CHR ''-'' # xs" for xs k
    using hd_str_nat [of k] by (metis list.sel(1))+
  show ?thesis
  proof (cases "i < 0")
    case True
    with a neg have j: "j < 0" by (auto simp: str_int_def split: if_splits)
    with a True have "str_nat (nat (- i)) = str_nat (nat (- j))" by (simp add: str_int_def)
    then have "nat (- i) = nat (- j)" by (rule str_nat_inj)
    with True j show ?thesis by simp
  next
    case False
    with a neg have j: "\<not> j < 0" by (auto simp: str_int_def split: if_splits)
    with a False have "str_nat (nat i) = str_nat (nat j)" by (simp add: str_int_def)
    then have "nat i = nat j" by (rule str_nat_inj)
    with False j show ?thesis by simp
  qed
qed

lemma inj_str_int: "inj str_int"
  by (rule injI) (rule str_int_inj)

subsection \<open>Dict assignment\<close>

lemma set_update_subset: "set (AList.update k v al) \<subseteq> insert (k, v) (set al)"
  by (induction al) auto

lemma keys_update: "fst ` set (AList.update k v al) = insert k (fst ` set al)"
  by (induction al) auto

lemma map_of_store:
  "map_of (store nm v ins) k = (if k = nm then (case v of Some x \<Rightarrow> Some x | None \<Rightarrow> map_of ins k) else map_of ins k)"
  by (cases v) (simp_all add: update_conv')

lemma set_store_subset: "(k, x) \<in> set (store nm v ins) \<Longrightarrow> (k, x) \<in> set ins \<or> (k = nm \<and> v = Some x)"
  using set_update_subset by (cases v) fastforce+

subsection \<open>The loop over a node's inputs\<close>

lemma resolve_Inl:
  "resolve links widgets mp inp c = Inl e \<longleftrightarrow> (\<exists>l. link inp = Some l \<and> links l = None \<and> e = KeyError l)"
  by (auto simp: resolve_def split: option.splits)

lemma resolve_Inr:
  "(\<exists>r. resolve links widgets mp inp c = Inr r) \<longleftrightarrow> (\<forall>l. link inp = Some l \<longrightarrow> links l \<noteq> None)"
  by (auto simp: resolve_def split: option.splits)

lemma input_loop_append:
  "input_loop links widgets mp (xs @ ys) st =
     (case input_loop links widgets mp xs st of
        Inl e \<Rightarrow> Inl e
      | Inr st' \<Rightarrow> input_loop links widgets mp ys st')"
proof (induction xs arbitrary: st)
  case Nil
  show ?case by simp
next
  case (Cons x xs)
  obtain ins c where st: "st = (ins, c)" by (cases st)
  show ?case unfolding st
    by (simp add: Cons.IH split: sum.splits prod.splits)
qed

lemma input_loop_Inl:
  "input_loop links widgets mp inps st = Inl e \<Longrightarrow>
     \<exists>inp \<in> set inps. \<exists>l. link inp = Some l \<and> links l = None \<and> e = KeyError l"
proof (induction inps arbitrary: st)
  case Nil
  then show ?case by simp
next
  case (Cons x xs)
  obtain ins c where st: "st = (ins, c)" by (cases st)
  show ?case
  proof (cases "resolve links widgets mp x c")
    case (Inl e')
    with Cons.prems st have "e' = e" by simp
    with Inl show ?thesis by (auto simp: resolve_Inl)
  next
    case (Inr r)
    obtain v c' where r: "r = (v, c')" by (cases r)
    from Cons.prems st Inr r
    have "input_loop links widgets mp xs (store (name x) v ins, c') = Inl e" by simp
    from Cons.IH [OF this] show ?thesis by auto
  qed
qed

lemma input_loop_Inr:
  "\<forall>inp \<in> set inps. \<forall>l. link inp = Some l \<longrightarrow> links l \<noteq> None \<Longrightarrow>
     \<exists>st'. input_loop links widgets mp inps st = Inr st'"
proof (cases "input_loop links widgets mp inps st")
  case (Inl e)
  assume a: "\<forall>inp \<in> set inps. \<forall>l. link inp = Some l \<longrightarrow> links l \<noteq> None"
  from input_loop_Inl [OF Inl] a show ?thesis by blast
next
  case (Inr st')
  then show ?thesis by blast
qed

lemma input_loop_fails:
  "inp \<in> set inps \<Longrightarrow> link inp = Some l \<Longrightarrow> links l = None \<Longrightarrow>
     \<exists>e. input_loop links widgets mp inps st = Inl e"
proof (induction inps arbitrary: st)
  case Nil
  then show ?case by simp
next
  case (Cons x xs)
  obtain ins c where st: "st = (ins, c)" by (cases st)
  show ?case
  proof (cases "resolve links widgets mp x c")
    case (Inl e')
    with st show ?thesis by simp
  next
    case (Inr r)
    obtain v c' where r: "r = (v, c')" by (cases r)
    from Inr have "x \<noteq> inp" using Cons.prems(2,3) by (auto simp: resolve_def)
    with Cons.prems have "inp \<in> set xs" by simp
    from Cons.IH [OF this Cons.prems(2,3)] Inr r st show ?thesis by simp
  qed
qed

lemma input_loop_frame:
  "input_loop links widgets mp inps (ins, c) = Inr (ins', c') \<Longrightarrow> nm \<notin> name ` set inps \<Longrightarrow>
     map_of ins' nm = map_of ins nm"
proof (induction inps arbitrary: ins c)
  case Nil
  then show ?case by simp
next
  case (Cons x xs)
  from Cons.prems(1) obtain v c1 where
    r: "resolve links widgets mp x c = Inr (v, c1)" and
    l: "input_loop links widgets mp xs (store (name x) v ins, c1) = Inr (ins', c')"
    by (auto split: sum.splits)
  from Cons.prems(2) have "nm \<notin> name ` set xs" "nm \<noteq> name x" by auto
  with Cons.IH [OF l] show ?case by (simp add: map_of_store)
qed

lemma input_loop_entries:
  "input_loop links widgets mp inps (ins, c) = Inr (ins', c') \<Longrightarrow> (k, x) \<in> set ins' \<Longrightarrow>
     (k, x) \<in> set ins \<or>
     (\<exists>inp \<in> set inps. \<exists>c0 c1. k = name inp \<and> resolve links widgets mp inp c0 = Inr (Some x, c1))"
proof (induction inps arbitrary: ins c)
  case Nil
  then show ?case by simp
next
  case (Cons y ys)
  from Cons.prems(1) obtain v c1 where
    r: "resolve links widgets mp y c = Inr (v, c1)" and
    l: "input_loop links widgets mp ys (store (name y) v ins, c1) = Inr (ins', c')"
    by (auto split: sum.splits)
  from Cons.IH [OF l Cons.prems(2)]
  consider "(k, x) \<in> set (store (name y) v ins)"
    | "\<exists>inp \<in> set ys. \<exists>c0 c1. k = name inp \<and> resolve links widgets mp inp c0 = Inr (Some x, c1)"
    by blast
  then show ?case
  proof cases
    case 1
    from set_store_subset [OF 1] r show ?thesis by auto
  next
    case 2
    then show ?thesis by auto
  qed
qed

lemma input_loop_nth:
  assumes "input_loop links widgets mp inps (ins, c) = Inr (ins', c')"
    and "distinct (map name inps)" and "i < length inps"
  shows "\<exists>ins1 c1 v c2.
           input_loop links widgets mp (take i inps) (ins, c) = Inr (ins1, c1)
           \<and> resolve links widgets mp (inps ! i) c1 = Inr (v, c2)
           \<and> map_of ins' (name (inps ! i)) =
               (case v of Some x \<Rightarrow> Some x | None \<Rightarrow> map_of ins (name (inps ! i)))"
proof -
  let ?x = "inps ! i"
  have split: "inps = take i inps @ ?x # drop (Suc i) inps"
    using assms(3) by (simp add: id_take_nth_drop)
  from assms(2) split have d: "distinct (map name (take i inps @ ?x # drop (Suc i) inps))"
    by simp
  then have n1: "name ?x \<notin> name ` set (take i inps)"
    and n2: "name ?x \<notin> name ` set (drop (Suc i) inps)"
    by auto
  from assms(1) split
  have "input_loop links widgets mp (take i inps @ ?x # drop (Suc i) inps) (ins, c) = Inr (ins', c')"
    by simp
  then obtain ins1 c1 v c2 where
    a: "input_loop links widgets mp (take i inps) (ins, c) = Inr (ins1, c1)" and
    r: "resolve links widgets mp ?x c1 = Inr (v, c2)" and
    b: "input_loop links widgets mp (drop (Suc i) inps) (store (name ?x) v ins1, c2) = Inr (ins', c')"
    by (auto simp: input_loop_append split: sum.splits)
  from input_loop_frame [OF b n2] have "map_of ins' (name ?x) = map_of (store (name ?x) v ins1) (name ?x)" .
  also have "\<dots> = (case v of Some x \<Rightarrow> Some x | None \<Rightarrow> map_of ins1 (name ?x))"
    by (simp add: map_of_store)
  also have "map_of ins1 (name ?x) = map_of ins (name ?x)"
    by (rule input_loop_frame [OF a n1])
  finally show ?thesis using a r by blast
qed

text \<open>The cursor after the loop: one step for every widget-flagged input that is linked
  or reaches the positional branch, when the widgets are a list.\<close>

lemma resolve_cursor:
  "resolve links widgets mp inp c = Inr (v, c') \<Longrightarrow>
     c' = (if is_list widgets \<and> widget inp \<and>
              (link inp = None \<longrightarrow> (\<forall>m. mp = Some m \<longrightarrow> map_of m (name inp) = None))
           then c + 1 else c)"
  by (cases widgets) (auto simp: resolve_def split: option.splits if_splits)

lemma input_loop_cursor:
  "input_loop links widgets mp inps (ins, c) = Inr (ins', c') \<Longrightarrow>
     c' = c + length (filter (\<lambda>inp. is_list widgets \<and> widget inp \<and>
              (link inp = None \<longrightarrow> (\<forall>m. mp = Some m \<longrightarrow> map_of m (name inp) = None))) inps)"
proof (induction inps arbitrary: ins c)
  case Nil
  then show ?case by simp
next
  case (Cons y ys)
  from Cons.prems(1) obtain v c1 where
    r: "resolve links widgets mp y c = Inr (v, c1)" and
    l: "input_loop links widgets mp ys (store (name y) v ins, c1) = Inr (ins', c')"
    by (auto split: sum.splits)
  from Cons.IH [OF l] resolve_cursor [OF r] show ?case by auto
qed

subsection \<open>The loop over the nodes\<close>

lemma compile_node_key: "compile_node links node = Inr (nid, entry) \<Longrightarrow> nid = str_int (node_id node)"
  by (auto simp: compile_node_def split: sum.splits)

lemma compile_node_Inl:
  "compile_node links node = Inl e \<Longrightarrow>
     \<exists>inp \<in> set (node_inputs node). \<exists>l. link inp = Some l \<and> links l = None \<and> e = KeyError l"
proof -
  assume "compile_node links node = Inl e"
  then have "input_loop links (widgets_values node)
       (mapping (node_type node) (widgets_values node)) (node_inputs node) ([], 0) = Inl e"
    by (auto simp: compile_node_def split: sum.splits)
  then show ?thesis by (rule input_loop_Inl)
qed

lemma compile_node_fails:
  "inp \<in> set (node_inputs node) \<Longrightarrow> link inp = Some l \<Longrightarrow> links l = None \<Longrightarrow>
     \<exists>e. compile_node links node = Inl e"
proof -
  assume "inp \<in> set (node_inputs node)" "link inp = Some l" "links l = None"
  from input_loop_fails [where links = links and l = l, OF this]
  obtain e where "input_loop links (widgets_values node)
       (mapping (node_type node) (widgets_values node)) (node_inputs node) ([], 0) = Inl e"
    by blast
  then show ?thesis by (simp add: compile_node_def)
qed

lemma node_loop_Inl:
  "node_loop links nodes prompt = Inl e \<Longrightarrow>
     \<exists>n \<in> set nodes. \<exists>inp \<in> set (node_inputs n). \<exists>l.
        link inp = Some l \<and> links l = None \<and> e = KeyError l"
proof (induction nodes arbitrary: prompt)
  case Nil
  then show ?case by simp
next
  case (Cons x xs)
  show ?case
  proof (cases "compile_node links x")
    case (Inl e')
    with Cons.prems have "e' = e" by simp
    with compile_node_Inl [OF Inl] show ?thesis by auto
  next
    case (Inr r)
    obtain nid entry where r: "r = (nid, entry)" by (cases r)
    from Cons.prems Inr r have "node_loop links xs (AList.update nid entry prompt) = Inl e"
      by simp
    from Cons.IH [OF this] show ?thesis by auto
  qed
qed

lemma node_loop_fails:
  "n \<in> set nodes \<Longrightarrow> inp \<in> set (node_inputs n) \<Longrightarrow> link inp = Some l \<Longrightarrow> links l = None \<Longrightarrow>
     \<exists>e. node_loop links nodes prompt = Inl e"
proof (induction nodes arbitrary: prompt)
  case Nil
  then show ?case by simp
next
  case (Cons x xs)
  show ?case
  proof (cases "compile_node links x")
    case (Inl e')
    then show ?thesis by simp
  next
    case (Inr r)
    obtain nid entry where r: "r = (nid, entry)" by (cases r)
    from Inr compile_node_fails [where links = links and l = l, OF Cons.prems(2,3,4)] have "x \<noteq> n" by auto
    with Cons.prems(1) have "n \<in> set xs" by simp
    from Cons.IH [OF this Cons.prems(2,3,4)] Inr r show ?thesis by simp
  qed
qed

lemma node_loop_keys:
  "node_loop links nodes prompt = Inr prompt' \<Longrightarrow>
     fst ` set prompt' = fst ` set prompt \<union> (\<lambda>n. str_int (node_id n)) ` set nodes"
proof (induction nodes arbitrary: prompt)
  case Nil
  then show ?case by simp
next
  case (Cons x xs)
  from Cons.prems obtain nid entry where
    c: "compile_node links x = Inr (nid, entry)" and
    l: "node_loop links xs (AList.update nid entry prompt) = Inr prompt'"
    by (auto split: sum.splits)
  from Cons.IH [OF l] compile_node_key [OF c] show ?case
    by (simp add: keys_update)
qed

lemma node_loop_entries:
  "node_loop links nodes prompt = Inr prompt' \<Longrightarrow> (nid, entry) \<in> set prompt' \<Longrightarrow>
     (nid, entry) \<in> set prompt \<or> (\<exists>n \<in> set nodes. compile_node links n = Inr (nid, entry))"
proof (induction nodes arbitrary: prompt)
  case Nil
  then show ?case by simp
next
  case (Cons x xs)
  from Cons.prems(1) obtain nid' entry' where
    c: "compile_node links x = Inr (nid', entry')" and
    l: "node_loop links xs (AList.update nid' entry' prompt) = Inr prompt'"
    by (auto split: sum.splits)
  from Cons.IH [OF l Cons.prems(2)]
  consider "(nid, entry) \<in> set (AList.update nid' entry' prompt)"
    | "\<exists>n \<in> set xs. compile_node links n = Inr (nid, entry)"
    by blast
  then show ?case
  proof cases
    case 1
    with set_update_subset [of nid' entry' prompt] c show ?thesis by auto
  next
    case 2
    then show ?thesis by auto
  qed
qed

lemma node_loop_frame:
  "node_loop links nodes prompt = Inr prompt' \<Longrightarrow> k \<notin> (\<lambda>n. str_int (node_id n)) ` set nodes \<Longrightarrow>
     map_of prompt' k = map_of prompt k"
proof (induction nodes arbitrary: prompt)
  case Nil
  then show ?case by simp
next
  case (Cons x xs)
  from Cons.prems(1) obtain nid entry where
    c: "compile_node links x = Inr (nid, entry)" and
    l: "node_loop links xs (AList.update nid entry prompt) = Inr prompt'"
    by (auto split: sum.splits)
  from Cons.prems(2) compile_node_key [OF c] have "k \<noteq> nid" "k \<notin> (\<lambda>n. str_int (node_id n)) ` set xs"
    by auto
  with Cons.IH [OF l] show ?case by (simp add: update_conv')
qed

lemma node_loop_lookup:
  "node_loop links nodes prompt = Inr prompt' \<Longrightarrow> distinct (map node_id nodes) \<Longrightarrow> n \<in> set nodes \<Longrightarrow>
     \<exists>entry. compile_node links n = Inr (str_int (node_id n), entry)
        \<and> map_of prompt' (str_int (node_id n)) = Some entry"
proof (induction nodes arbitrary: prompt)
  case Nil
  then show ?case by simp
next
  case (Cons x xs)
  from Cons.prems(1) obtain nid entry where
    c: "compile_node links x = Inr (nid, entry)" and
    l: "node_loop links xs (AList.update nid entry prompt) = Inr prompt'"
    by (auto split: sum.splits)
  note nid = compile_node_key [OF c]
  show ?case
  proof (cases "n = x")
    case True
    from Cons.prems(2) have "node_id x \<notin> node_id ` set xs" by simp
    then have "nid \<notin> (\<lambda>n. str_int (node_id n)) ` set xs"
      unfolding nid using str_int_inj by blast
    from node_loop_frame [OF l this] have "map_of prompt' nid = Some entry"
      by (simp add: update_conv')
    with c nid True show ?thesis by simp
  next
    case False
    with Cons.prems have "n \<in> set xs" "distinct (map node_id xs)" by simp_all
    from Cons.IH [OF l this(2,1)] show ?thesis .
  qed
qed

subsection \<open>Link resolution\<close>

lemma resolve_linked:
  "link inp = Some l \<Longrightarrow> links l = Some lk \<Longrightarrow>
     \<exists>c'. resolve links widgets mp inp c =
       Inr (Some (JList [JStr (str_int (producer_node_id lk)), JInt (producer_slot_index lk)]), c')"
  by (simp add: resolve_def reference_def)

lemma compile_node_lookup:
  assumes "compile_node links node = Inr (nid, entry)"
    and "distinct (map name (node_inputs node))" and "i < length (node_inputs node)"
  shows "\<exists>ins1 c1 v c2.
           input_loop links (widgets_values node) (mapping (node_type node) (widgets_values node))
             (take i (node_inputs node)) ([], 0) = Inr (ins1, c1)
           \<and> resolve links (widgets_values node) (mapping (node_type node) (widgets_values node))
               (node_inputs node ! i) c1 = Inr (v, c2)
           \<and> map_of (inputs entry) (name (node_inputs node ! i)) = v"
proof -
  from assms(1) obtain c' where
    l: "input_loop links (widgets_values node) (mapping (node_type node) (widgets_values node))
          (node_inputs node) ([], 0) = Inr (inputs entry, c')"
    by (auto simp: compile_node_def split: sum.splits)
  from input_loop_nth [OF l assms(2,3)] show ?thesis
    by (auto split: option.splits)
qed

text \<open>
  Claim C6. When some input of some node declares a link id that the links table does not
  hold, the base pass ends with the \<open>KeyError\<close> of such an id and so does the script:
  no document is produced. When every declared link id is in the table, the base pass
  produces a document; link resolution binds each linked input to the reference
  \<open>[str(producer_node_id), producer_slot_index]\<close> of its table entry, and that
  reference is what the document holds under the input's name in the node's entry
  (node ids and the input names of a node being unique, as keys of the document are).
\<close>

theorem malformed_link_aborts:
  "((\<exists>n \<in> set (data_nodes data). \<exists>inp \<in> set (node_inputs n). \<exists>l.
        link inp = Some l \<and> links_index (data_links data) l = None)
     \<longrightarrow> (\<exists>n \<in> set (data_nodes data). \<exists>inp \<in> set (node_inputs n). \<exists>l.
            link inp = Some l \<and> links_index (data_links data) l = None
            \<and> base_pass data = Inl (KeyError l) \<and> convert data = Inl (KeyError l)))
   \<and> ((\<forall>n \<in> set (data_nodes data). \<forall>inp \<in> set (node_inputs n). \<forall>l.
        link inp = Some l \<longrightarrow> links_index (data_links data) l \<noteq> None)
     \<longrightarrow> (\<exists>prompt. base_pass data = Inr prompt
          \<and> (\<forall>n \<in> set (data_nodes data). \<forall>inp \<in> set (node_inputs n). \<forall>l lk.
                link inp = Some l \<and> links_index (data_links data) l = Some lk
                \<longrightarrow> (\<forall>c. \<exists>c'. resolve (links_index (data_links data)) (widgets_values n)
                              (mapping (node_type n) (widgets_values n)) inp c =
                            Inr (Some (JList [JStr (str_int (producer_node_id lk)),
                                              JInt (producer_slot_index lk)]), c'))
                  \<and> (distinct (map node_id (data_nodes data)) \<and> distinct (map name (node_inputs n))
                      \<longrightarrow> (\<exists>entry. map_of prompt (str_int (node_id n)) = Some entry
                            \<and> map_of (inputs entry) (name inp) =
                                Some (JList [JStr (str_int (producer_node_id lk)),
                                             JInt (producer_slot_index lk)]))))))"
proof (intro conjI impI)
  let ?L = "links_index (data_links data)"
  assume "\<exists>n \<in> set (data_nodes data). \<exists>inp \<in> set (node_inputs n). \<exists>l.
        link inp = Some l \<and> ?L l = None"
  then obtain n inp l where
    bad: "n \<in> set (data_nodes data)" "inp \<in> set (node_inputs n)" "link inp = Some l" "?L l = None"
    by blast
  from node_loop_fails [where links = ?L and l = l, OF bad]
  obtain e where e: "base_pass data = Inl e" by (auto simp: base_pass_def)
  then have "node_loop ?L (data_nodes data) [] = Inl e" by (simp add: base_pass_def)
  from node_loop_Inl [OF this] obtain n' inp' l' where
    "n' \<in> set (data_nodes data)" "inp' \<in> set (node_inputs n')" "link inp' = Some l'"
    "?L l' = None" "e = KeyError l'"
    by blast
  moreover from e have "convert data = Inl e" by (simp add: convert_def)
  ultimately show "\<exists>n \<in> set (data_nodes data). \<exists>inp \<in> set (node_inputs n). \<exists>l.
            link inp = Some l \<and> ?L l = None
            \<and> base_pass data = Inl (KeyError l) \<and> convert data = Inl (KeyError l)"
    using e by blast
next
  let ?L = "links_index (data_links data)"
  assume ok: "\<forall>n \<in> set (data_nodes data). \<forall>inp \<in> set (node_inputs n). \<forall>l.
        link inp = Some l \<longrightarrow> ?L l \<noteq> None"
  have "\<exists>prompt. base_pass data = Inr prompt"
  proof (cases "base_pass data")
    case (Inl e)
    then have "node_loop ?L (data_nodes data) [] = Inl e" by (simp add: base_pass_def)
    from node_loop_Inl [OF this] ok show ?thesis by blast
  next
    case (Inr prompt)
    then show ?thesis by blast
  qed
  then obtain prompt where p: "base_pass data = Inr prompt" by blast
  then have nl: "node_loop ?L (data_nodes data) [] = Inr prompt" by (simp add: base_pass_def)
  have "\<exists>entry. map_of prompt (str_int (node_id n)) = Some entry
          \<and> map_of (inputs entry) (name inp) =
              Some (JList [JStr (str_int (producer_node_id lk)), JInt (producer_slot_index lk)])"
    if n: "n \<in> set (data_nodes data)" and inp: "inp \<in> set (node_inputs n)"
      and l: "link inp = Some l" "?L l = Some lk"
      and d: "distinct (map node_id (data_nodes data))" "distinct (map name (node_inputs n))"
    for n inp l lk
  proof -
    from node_loop_lookup [OF nl d(1) n] obtain entry where
      c: "compile_node ?L n = Inr (str_int (node_id n), entry)" and
      m: "map_of prompt (str_int (node_id n)) = Some entry"
      by blast
    from inp obtain i where i: "i < length (node_inputs n)" "node_inputs n ! i = inp"
      by (auto simp: in_set_conv_nth)
    from compile_node_lookup [OF c d(2) i(1)] i(2) obtain v c1 c2 where
      r: "resolve ?L (widgets_values n) (mapping (node_type n) (widgets_values n)) inp c1 = Inr (v, c2)"
      and v: "map_of (inputs entry) (name inp) = v"
      by auto
    from resolve_linked [where links = ?L and l = l and c = c1 and widgets = "widgets_values n"
        and mp = "mapping (node_type n) (widgets_values n)", OF l] r v m
    show ?thesis by auto
  qed
  with p show "\<exists>prompt. base_pass data = Inr prompt
          \<and> (\<forall>n \<in> set (data_nodes data). \<forall>inp \<in> set (node_inputs n). \<forall>l lk.
                link inp = Some l \<and> ?L l = Some lk
                \<longrightarrow> (\<forall>c. \<exists>c'. resolve ?L (widgets_values n)
                              (mapping (node_type n) (widgets_values n)) inp c =
                            Inr (Some (JList [JStr (str_int (producer_node_id lk)),
                                              JInt (producer_slot_index lk)]), c'))
                  \<and> (distinct (map node_id (data_nodes data)) \<and> distinct (map name (node_inputs n))
                      \<longrightarrow> (\<exists>entry. map_of prompt (str_int (node_id n)) = Some entry
                            \<and> map_of (inputs entry) (name inp) =
                                Some (JList [JStr (str_int (producer_node_id lk)),
                                             JInt (producer_slot_index lk)]))))"
    using resolve_linked by blast
qed


text \<open>
  Claim C6 on the spec's two-node graph: with a links table that holds only link 11, the
  declared link 10 ends the script with an error; with link 10 in the table, input
  \<open>y\<close> of node 2 is bound to \<open>["1", 0]\<close>.
\<close>

theorem malformed_link_aborts_witness:
  "link \<lparr>name = ''y'', link = Some 10, widget = False\<rparr> = Some 10
   \<and> links_index [\<lparr>link_id = 11, producer_node_id = 1, producer_slot_index = 0,
         consumer_node_id = 2, consumer_slot_index = 0\<rparr>] 10 = None
   \<and> (\<exists>l. convert \<lparr>data_nodes =
       [\<lparr>node_id = 1, node_type = ''TypeA'',
         node_inputs = [\<lparr>name = ''x'', link = None, widget = True\<rparr>],
         widgets_values = WList [JInt 5]\<rparr>,
        \<lparr>node_id = 2, node_type = ''TypeB'',
         node_inputs = [\<lparr>name = ''y'', link = Some 10, widget = False\<rparr>],
         widgets_values = WNone\<rparr>],
     data_links =
       [\<lparr>link_id = 11, producer_node_id = 1, producer_slot_index = 0,
         consumer_node_id = 2, consumer_slot_index = 0\<rparr>]\<rparr> = Inl (KeyError l))
   \<and> (\<exists>prompt entry. base_pass \<lparr>data_nodes =
       [\<lparr>node_id = 1, node_type = ''TypeA'',
         node_inputs = [\<lparr>name = ''x'', link = None, widget = True\<rparr>],
         widgets_values = WList [JInt 5]\<rparr>,
        \<lparr>node_id = 2, node_type = ''TypeB'',
         node_inputs = [\<lparr>name = ''y'', link = Some 10, widget = False\<rparr>],
         widgets_values = WNone\<rparr>],
     data_links =
       [\<lparr>link_id = 10, producer_node_id = 1, producer_slot_index = 0,
         consumer_node_id = 2, consumer_slot_index = 0\<rparr>]\<rparr> = Inr prompt
       \<and> map_of prompt ''2'' = Some entry
       \<and> map_of (inputs entry) ''y'' = Some (JList [JStr ''1'', JInt 0]))"
proof -
  let ?nodes = "[\<lparr>node_id = 1, node_type = ''TypeA'',
         node_inputs = [\<lparr>name = ''x'', link = None, widget = True\<rparr>],
         widgets_values = WList [JInt 5]\<rparr>,
        \<lparr>node_id = 2, node_type = ''TypeB'',
         node_inputs = [\<lparr>name = ''y'', link = Some 10, widget = False\<rparr>],
         widgets_values = WNone\<rparr>]"
  let ?n = "\<lparr>node_id = 2, node_type = ''TypeB'',
         node_inputs = [\<lparr>name = ''y'', link = Some 10, widget = False\<rparr>],
         widgets_values = WNone\<rparr>"
  let ?inp = "\<lparr>name = ''y'', link = Some 10, widget = False\<rparr>"
  let ?lk = "\<lparr>link_id = 10, producer_node_id = 1, producer_slot_index = 0,
         consumer_node_id = 2, consumer_slot_index = 0\<rparr>"
  let ?bad = "\<lparr>data_nodes = ?nodes,
     data_links = [\<lparr>link_id = 11, producer_node_id = 1, producer_slot_index = 0,
         consumer_node_id = 2, consumer_slot_index = 0\<rparr>]\<rparr>"
  let ?good = "\<lparr>data_nodes = ?nodes, data_links = [?lk]\<rparr>"
  have absent: "links_index [\<lparr>link_id = 11, producer_node_id = 1, producer_slot_index = 0,
         consumer_node_id = 2, consumer_slot_index = 0\<rparr>] 10 = None"
    by (simp add: links_index_def)
  have bad: "\<exists>n \<in> set (data_nodes ?bad). \<exists>inp \<in> set (node_inputs n). \<exists>l.
        link inp = Some l \<and> links_index (data_links ?bad) l = None"
    by (simp add: links_index_def)
  from malformed_link_aborts [of ?bad, THEN conjunct1, THEN mp, OF bad]
  have 1: "\<exists>l. convert ?bad = Inl (KeyError l)" by blast
  have good: "\<forall>n \<in> set (data_nodes ?good). \<forall>inp \<in> set (node_inputs n). \<forall>l.
        link inp = Some l \<longrightarrow> links_index (data_links ?good) l \<noteq> None"
    by (simp add: links_index_def)
  from malformed_link_aborts [of ?good, THEN conjunct2, THEN mp, OF good]
  obtain prompt where p: "base_pass ?good = Inr prompt"
    and all: "\<forall>n \<in> set (data_nodes ?good). \<forall>inp \<in> set (node_inputs n). \<forall>l lk.
                link inp = Some l \<and> links_index (data_links ?good) l = Some lk
                \<longrightarrow> (\<forall>c. \<exists>c'. resolve (links_index (data_links ?good)) (widgets_values n)
                              (mapping (node_type n) (widgets_values n)) inp c =
                            Inr (Some (JList [JStr (str_int (producer_node_id lk)),
                                              JInt (producer_slot_index lk)]), c'))
                  \<and> (distinct (map node_id (data_nodes ?good)) \<and> distinct (map name (node_inputs n))
                      \<longrightarrow> (\<exists>entry. map_of prompt (str_int (node_id n)) = Some entry
                            \<and> map_of (inputs entry) (name inp) =
                                Some (JList [JStr (str_int (producer_node_id lk)),
                                             JInt (producer_slot_index lk)])))"
    by blast
  have n: "?n \<in> set (data_nodes ?good)" and i: "?inp \<in> set (node_inputs ?n)" by simp_all
  have l: "link ?inp = Some 10 \<and> links_index (data_links ?good) 10 = Some ?lk"
    by (simp add: links_index_def)
  have d: "distinct (map node_id (data_nodes ?good)) \<and> distinct (map name (node_inputs ?n))"
    by simp
  from all [rule_format, OF n i l, THEN conjunct2, THEN mp, OF d]
  obtain entry where "map_of prompt (str_int (node_id ?n)) = Some entry"
    "map_of (inputs entry) (name ?inp) = Some (JList [JStr (str_int (producer_node_id ?lk)),
                                             JInt (producer_slot_index ?lk)])"
    by blast
  then have "map_of prompt ''2'' = Some entry \<and> map_of (inputs entry) ''y'' = Some (JList [JStr ''1'', JInt 0])"
    by (simp add: str_int_def str_nat.simps)
  with p have 2: "\<exists>prompt entry. base_pass ?good = Inr prompt
       \<and> map_of prompt ''2'' = Some entry
       \<and> map_of (inputs entry) ''y'' = Some (JList [JStr ''1'', JInt 0])"
    by blast
  from absent 1 2 show ?thesis by simp
qed

subsection \<open>Forced wiring\<close>

text \<open>
  Claim C7. \<open>set_link\<close> on a node id that is not a key of the map returns the map as it
  is. On a key of the map it stores the reference \<open>[str(src_id), src_slot]\<close> under the
  input name in that node, whatever was stored there before, and changes nothing else:
  the node keeps its class type and its other inputs, and every other node is as before.
\<close>

theorem set_link_absent_noop:
  "(map_of prompt (str nid) = None \<longrightarrow> set_link nid input_name src_id src_slot prompt = prompt)
   \<and> (\<forall>node. map_of prompt (str nid) = Some node \<longrightarrow>
         (\<exists>node'. map_of (set_link nid input_name src_id src_slot prompt) (str nid) = Some node'
            \<and> class_type node' = class_type node
            \<and> map_of (inputs node') input_name = Some (JList [JStr (str src_id), JInt src_slot])
            \<and> (\<forall>k. k \<noteq> input_name \<longrightarrow> map_of (inputs node') k = map_of (inputs node) k)))
   \<and> (\<forall>k. k \<noteq> str nid \<longrightarrow> map_of (set_link nid input_name src_id src_slot prompt) k = map_of prompt k)
   \<and> fst ` set (set_link nid input_name src_id src_slot prompt) = fst ` set prompt"
proof (intro conjI allI impI)
  assume "map_of prompt (str nid) = None"
  then show "set_link nid input_name src_id src_slot prompt = prompt"
    by (simp add: set_link_def)
next
  fix node
  assume n: "map_of prompt (str nid) = Some node"
  let ?node' = "node\<lparr>inputs := AList.update input_name (reference (str src_id) src_slot) (inputs node)\<rparr>"
  have "map_of (set_link nid input_name src_id src_slot prompt) (str nid) = Some ?node'"
    using n by (simp add: set_link_def update_conv')
  moreover have "class_type ?node' = class_type node" by simp
  moreover have "map_of (inputs ?node') input_name = Some (JList [JStr (str src_id), JInt src_slot])"
    by (simp add: update_conv' reference_def)
  moreover have "\<forall>k. k \<noteq> input_name \<longrightarrow> map_of (inputs ?node') k = map_of (inputs node) k"
    by (simp add: update_conv')
  ultimately show "\<exists>node'. map_of (set_link nid input_name src_id src_slot prompt) (str nid) = Some node'
            \<and> class_type node' = class_type node
            \<and> map_of (inputs node') input_name = Some (JList [JStr (str src_id), JInt src_slot])
            \<and> (\<forall>k. k \<noteq> input_name \<longrightarrow> map_of (inputs node') k = map_of (inputs node) k)"
    by blast
next
  fix k
  assume "k \<noteq> str nid"
  then show "map_of (set_link nid input_name src_id src_slot prompt) k = map_of prompt k"
    by (simp add: set_link_def update_conv' split: option.splits)
next
  show "fst ` set (set_link nid input_name src_id src_slot prompt) = fst ` set prompt"
  proof (cases "map_of prompt (str nid)")
    case None
    then show ?thesis by (simp add: set_link_def)
  next
    case (Some node)
    then have "str nid \<in> fst ` set prompt" by (metis map_of_eq_None_iff option.distinct(1))
    with Some show ?thesis by (auto simp: set_link_def keys_update)
  qed
qed

text \<open>
  Claim C7 on a one-node map: \<open>set_link\<close> on the absent id \<open>"8"\<close> changes nothing, and
  \<open>set_link\<close> on \<open>"28"\<close> replaces the literal stored under \<open>vae\<close> by the reference to
  node 53 (given as the integer 53).
\<close>

theorem set_link_absent_noop_witness:
  "map_of [(''28'', \<lparr>class_type = ''WanVaceToVideo'', inputs = [(''vae'', JInt 1), (''width'', JInt 640)]\<rparr>)]
      (str (IdStr ''8'')) = None
   \<and> set_link (IdStr ''8'') ''model'' (IdStr ''32'') 0
        [(''28'', \<lparr>class_type = ''WanVaceToVideo'', inputs = [(''vae'', JInt 1), (''width'', JInt 640)]\<rparr>)]
      = [(''28'', \<lparr>class_type = ''WanVaceToVideo'', inputs = [(''vae'', JInt 1), (''width'', JInt 640)]\<rparr>)]
   \<and> map_of [(''28'', \<lparr>class_type = ''WanVaceToVideo'', inputs = [(''vae'', JInt 1), (''width'', JInt 640)]\<rparr>)]
      (str (IdStr ''28''))
      = Some \<lparr>class_type = ''WanVaceToVideo'', inputs = [(''vae'', JInt 1), (''width'', JInt 640)]\<rparr>
   \<and> (\<exists>node'. map_of (set_link (IdStr ''28'') ''vae'' (IdInt 53) 0
        [(''28'', \<lparr>class_type = ''WanVaceToVideo'', inputs = [(''vae'', JInt 1), (''width'', JInt 640)]\<rparr>)])
         ''28'' = Some node'
        \<and> map_of (inputs node') ''vae'' = Some (JList [JStr ''53'', JInt 0])
        \<and> map_of (inputs node') ''width'' = Some (JInt 640))"
proof -
  let ?node = "\<lparr>class_type = ''WanVaceToVideo'', inputs = [(''vae'', JInt 1), (''width'', JInt 640)]\<rparr>"
  let ?prompt = "[(''28'', ?node)]"
  have a: "map_of ?prompt (str (IdStr ''8'')) = None" by simp
  from set_link_absent_noop [of ?prompt "IdStr ''8''" "''model''" "IdStr ''32''" 0,
      THEN conjunct1, THEN mp, OF a]
  have 1: "set_link (IdStr ''8'') ''model'' (IdStr ''32'') 0 ?prompt = ?prompt" .
  have b: "map_of ?prompt (str (IdStr ''28'')) = Some ?node" by simp
  from set_link_absent_noop [of ?prompt "IdStr ''28''" "''vae''" "IdInt 53" 0,
      THEN conjunct2, THEN conjunct1, THEN spec, THEN mp, OF b]
  obtain node' where
    n: "map_of (set_link (IdStr ''28'') ''vae'' (IdInt 53) 0 ?prompt) (str (IdStr ''28'')) = Some node'"
    and v: "map_of (inputs node') ''vae'' = Some (JList [JStr (str (IdInt 53)), JInt 0])"
    and o: "\<forall>k. k \<noteq> ''vae'' \<longrightarrow> map_of (inputs node') k = map_of (inputs ?node) k"
    by blast
  from o have "map_of (inputs node') ''width'' = Some (JInt 640)" by simp
  with n v have 2: "\<exists>node'. map_of (set_link (IdStr ''28'') ''vae'' (IdInt 53) 0 ?prompt) ''28'' = Some node'
        \<and> map_of (inputs node') ''vae'' = Some (JList [JStr ''53'', JInt 0])
        \<and> map_of (inputs node') ''width'' = Some (JInt 640)"
    by (simp add: str_int_def str_nat.simps)
  from a 1 b 2 show ?thesis by blast
qed

subsection \<open>Widget binding\<close>

text \<open>
  Claim C8. In a KSampler node whose \<open>widgets_values\<close> is a list, an unlinked
  widget-flagged input named seed, steps, cfg, sampler\_name, scheduler or denoise is
  bound by the override, whatever the cursor is and without moving it: to the widget at
  index 0, 2, 3, 4, 5 or 6 when the list is long enough to hold that index, and to the
  default 0, 4, 5, \<open>'euler'\<close>, \<open>'beta'\<close> or 1 otherwise. That value is what the node's
  entry holds under the input's name (the input names of the node being unique).
\<close>

theorem ksampler_override:
  assumes "node_type node = ''KSampler''" and "widgets_values node = WList ws"
    and "link inp = None" and "widget inp"
    and "(name inp, idx, dflt) \<in> set [(''seed'', 0, JInt 0), (''steps'', 2, JInt 4),
           (''cfg'', 3, JInt 5), (''sampler_name'', 4, JStr ''euler''),
           (''scheduler'', 5, JStr ''beta''), (''denoise'', 6, JInt 1)]"
  shows "resolve links (widgets_values node) (mapping (node_type node) (widgets_values node)) inp c
           = Inr (Some (if idx < length ws then ws ! idx else dflt), c)
         \<and> (\<forall>nid entry. compile_node links node = Inr (nid, entry)
               \<and> distinct (map name (node_inputs node)) \<and> inp \<in> set (node_inputs node)
             \<longrightarrow> map_of (inputs entry) (name inp) = Some (if idx < length ws then ws ! idx else dflt))"
proof -
  let ?W = "widgets_values node"
  let ?M = "mapping (node_type node) (widgets_values node)"
  have m: "?M = Some (ksampler_mapping ws)" using assms(1,2) by simp
  have v: "map_of (ksampler_mapping ws) (name inp) = Some (if idx < length ws then ws ! idx else dflt)"
    using assms(5) by (auto simp: ksampler_mapping_def)
  have r: "resolve links ?W ?M inp c' = Inr (Some (if idx < length ws then ws ! idx else dflt), c')"
    for c'
    using assms(3,4) v by (simp add: resolve_def m)
  have "map_of (inputs entry) (name inp) = Some (if idx < length ws then ws ! idx else dflt)"
    if c: "compile_node links node = Inr (nid, entry)"
      and d: "distinct (map name (node_inputs node))" and i: "inp \<in> set (node_inputs node)"
    for nid entry
  proof -
    from i obtain i where i: "i < length (node_inputs node)" "node_inputs node ! i = inp"
      by (auto simp: in_set_conv_nth)
    from compile_node_lookup [OF c d i(1)] i(2) obtain v c1 c2 where
      "resolve links ?W ?M inp c1 = Inr (v, c2)" "map_of (inputs entry) (name inp) = v"
      by auto
    with r [of c1] show ?thesis by simp
  qed
  with r [of c] show ?thesis by blast
qed

text \<open>
  Claim C8 on a KSampler node with the widgets \<open>[42, 'fixed', 8]\<close>, whose input
  \<open>model\<close> is linked: \<open>seed\<close> is 42 (index 0), \<open>steps\<close> is 8 (index 2, after the seed
  mode), and \<open>cfg\<close> takes the default 5, the list having no index 3.
\<close>

theorem ksampler_override_witness:
  "compile_node (links_index [\<lparr>link_id = 7, producer_node_id = 32, producer_slot_index = 0,
         consumer_node_id = 8, consumer_slot_index = 0\<rparr>])
     \<lparr>node_id = 8, node_type = ''KSampler'',
      node_inputs = [\<lparr>name = ''model'', link = Some 7, widget = False\<rparr>,
                     \<lparr>name = ''seed'', link = None, widget = True\<rparr>,
                     \<lparr>name = ''steps'', link = None, widget = True\<rparr>,
                     \<lparr>name = ''cfg'', link = None, widget = True\<rparr>],
      widgets_values = WList [JInt 42, JStr ''fixed'', JInt 8]\<rparr>
   = Inr (''8'', \<lparr>class_type = ''KSampler'',
            inputs = [(''model'', JList [JStr ''32'', JInt 0]), (''seed'', JInt 42),
                      (''steps'', JInt 8), (''cfg'', JInt 5)]\<rparr>)
   \<and> map_of [(''model'', JList [JStr ''32'', JInt 0]), (''seed'', JInt 42),
             (''steps'', JInt 8), (''cfg'', JInt 5)] ''cfg'' = Some (JInt 5)
   \<and> map_of [(''model'', JList [JStr ''32'', JInt 0]), (''seed'', JInt 42),
             (''steps'', JInt 8), (''cfg'', JInt 5)] ''steps'' = Some (JInt 8)"
proof -
  let ?L = "links_index [\<lparr>link_id = 7, producer_node_id = 32, producer_slot_index = 0,
         consumer_node_id = 8, consumer_slot_index = 0\<rparr>]"
  let ?ws = "[JInt 42, JStr ''fixed'', JInt 8]"
  let ?node = "\<lparr>node_id = 8, node_type = ''KSampler'',
      node_inputs = [\<lparr>name = ''model'', link = Some 7, widget = False\<rparr>,
                     \<lparr>name = ''seed'', link = None, widget = True\<rparr>,
                     \<lparr>name = ''steps'', link = None, widget = True\<rparr>,
                     \<lparr>name = ''cfg'', link = None, widget = True\<rparr>],
      widgets_values = WList ?ws\<rparr>"
  let ?ins = "[(''model'', JList [JStr ''32'', JInt 0]), (''seed'', JInt 42),
                      (''steps'', JInt 8), (''cfg'', JInt 5)]"
  let ?entry = "\<lparr>class_type = ''KSampler'', inputs = ?ins\<rparr>"
  have c: "compile_node ?L ?node = Inr (''8'', ?entry)"
    by (simp add: compile_node_def links_index_def resolve_def ksampler_mapping_def reference_def
        str_int_def str_nat.simps)
  have h: "node_type ?node = ''KSampler''" "widgets_values ?node = WList ?ws" by simp_all
  have pre: "compile_node ?L ?node = Inr (''8'', ?entry)
      \<and> distinct (map name (node_inputs ?node))
      \<and> \<lparr>name = ''cfg'', link = None, widget = True\<rparr> \<in> set (node_inputs ?node)"
    using c by simp
  have "map_of (inputs ?entry) (name \<lparr>name = ''cfg'', link = None, widget = True\<rparr>)
      = Some (if 3 < length ?ws then ?ws ! 3 else JInt 5)"
    using ksampler_override [where node = ?node and ws = ?ws
        and inp = "\<lparr>name = ''cfg'', link = None, widget = True\<rparr>"
        and idx = 3 and dflt = "JInt 5" and links = ?L and c = 0, OF h] pre
    by (simp del: map_of.simps)
  then have 1: "map_of ?ins ''cfg'' = Some (JInt 5)" by simp
  have pre2: "compile_node ?L ?node = Inr (''8'', ?entry)
      \<and> distinct (map name (node_inputs ?node))
      \<and> \<lparr>name = ''steps'', link = None, widget = True\<rparr> \<in> set (node_inputs ?node)"
    using c by simp
  have "map_of (inputs ?entry) (name \<lparr>name = ''steps'', link = None, widget = True\<rparr>)
      = Some (if 2 < length ?ws then ?ws ! 2 else JInt 4)"
    using ksampler_override [where node = ?node and ws = ?ws
        and inp = "\<lparr>name = ''steps'', link = None, widget = True\<rparr>"
        and idx = 2 and dflt = "JInt 4" and links = ?L and c = 0, OF h] pre2
    by (simp del: map_of.simps)
  then have 2: "map_of ?ins ''steps'' = Some (JInt 8)" by simp
  from c 1 2 show ?thesis by blast
qed

text \<open>
  Claim C2 as stated fails twice. A node with two widget-flagged inputs, the first linked
  (N = 2, M = 1), and a widget list of length N - M = 1: the linked input takes the only
  slot and the unlinked input \<open>b\<close> is not bound. And an input bound by the KSampler
  override leaves the cursor where it was.
\<close>

theorem positional_cursor_counterexample:
  "compile_node (links_index [\<lparr>link_id = 10, producer_node_id = 5, producer_slot_index = 0,
         consumer_node_id = 1, consumer_slot_index = 0\<rparr>])
     \<lparr>node_id = 1, node_type = ''TypeA'',
      node_inputs = [\<lparr>name = ''a'', link = Some 10, widget = True\<rparr>,
                     \<lparr>name = ''b'', link = None, widget = True\<rparr>],
      widgets_values = WList [JInt 7]\<rparr>
   = Inr (''1'', \<lparr>class_type = ''TypeA'', inputs = [(''a'', JList [JStr ''5'', JInt 0])]\<rparr>)
   \<and> input_loop Map.empty (WList [JInt 42]) (mapping ''KSampler'' (WList [JInt 42]))
       [\<lparr>name = ''seed'', link = None, widget = True\<rparr>] ([], 0)
     = Inr ([(''seed'', JInt 42)], 0)"
  by (simp add: compile_node_def links_index_def resolve_def ksampler_mapping_def reference_def
      str_int_def str_nat.simps)

lemma filter_take_less:
  "i < length xs \<Longrightarrow> P (xs ! i) \<Longrightarrow> length (filter P (take i xs)) < length (filter P xs)"
proof -
  assume a: "i < length xs" "P (xs ! i)"
  then have "xs = take i xs @ xs ! i # drop (Suc i) xs" by (simp add: id_take_nth_drop)
  then have "filter P xs = filter P (take i xs) @ filter P (xs ! i # drop (Suc i) xs)"
    by (metis filter_append)
  with a(2) show ?thesis by simp
qed

text \<open>
  Claim C2, amended. With a list of widgets the cursor advances once for every
  widget-flagged input that is linked or reaches the positional branch, and not for an
  input bound by the override. In a node that has no override (any type but KSampler),
  an unlinked widget-flagged input is bound to the widget whose index is the number of
  widget-flagged inputs declared before it, linked ones included, when the list holds
  that index, and is left out otherwise; so a list with one slot for each of the N
  widget-flagged inputs binds every unlinked one, in declared order, skipping the slots
  of the linked ones.
\<close>

theorem positional_cursor:
  assumes "widgets_values node = WList ws"
  shows "(\<forall>inps ins c ins' c'.
            input_loop links (widgets_values node) (mapping (node_type node) (widgets_values node))
              inps (ins, c) = Inr (ins', c')
            \<longrightarrow> c' = c + length (filter (\<lambda>inp. widget inp \<and>
                    (link inp = None \<longrightarrow>
                       (\<forall>m. mapping (node_type node) (widgets_values node) = Some m
                            \<longrightarrow> map_of m (name inp) = None))) inps))
         \<and> (\<forall>nid entry i.
              node_type node \<noteq> ''KSampler'' \<and> compile_node links node = Inr (nid, entry)
              \<and> distinct (map name (node_inputs node)) \<and> i < length (node_inputs node)
              \<and> link (node_inputs node ! i) = None \<and> widget (node_inputs node ! i)
            \<longrightarrow> map_of (inputs entry) (name (node_inputs node ! i)) =
                  (if length (filter widget (take i (node_inputs node))) < length ws
                   then Some (ws ! length (filter widget (take i (node_inputs node))))
                   else None)
                \<and> (length (filter widget (node_inputs node)) \<le> length ws
                    \<longrightarrow> map_of (inputs entry) (name (node_inputs node ! i)) =
                          Some (ws ! length (filter widget (take i (node_inputs node))))))"
proof (intro conjI allI impI)
  fix inps ins c ins' c'
  assume "input_loop links (widgets_values node) (mapping (node_type node) (widgets_values node))
              inps (ins, c) = Inr (ins', c')"
  from input_loop_cursor [OF this] assms
  show "c' = c + length (filter (\<lambda>inp. widget inp \<and>
                    (link inp = None \<longrightarrow>
                       (\<forall>m. mapping (node_type node) (widgets_values node) = Some m
                            \<longrightarrow> map_of m (name inp) = None))) inps)"
    by simp
next
  fix nid entry i
  let ?inps = "node_inputs node"
  let ?k = "length (filter widget (take i ?inps))"
  assume a: "node_type node \<noteq> ''KSampler'' \<and> compile_node links node = Inr (nid, entry)
              \<and> distinct (map name ?inps) \<and> i < length ?inps
              \<and> link (?inps ! i) = None \<and> widget (?inps ! i)"
  then have mp: "mapping (node_type node) (widgets_values node) = None"
    using assms by simp
  from a have c: "compile_node links node = Inr (nid, entry)" and d: "distinct (map name ?inps)"
    and i: "i < length ?inps" by simp_all
  from compile_node_lookup [OF c d i] obtain ins1 c1 v c2 where
    l: "input_loop links (WList ws) None (take i ?inps) ([], 0) = Inr (ins1, c1)" and
    r: "resolve links (WList ws) None (?inps ! i) c1 = Inr (v, c2)" and
    m: "map_of (inputs entry) (name (?inps ! i)) = v"
    using mp assms by auto
  from input_loop_cursor [OF l] have c1: "c1 = ?k" by simp
  from r a have "v = (if c1 < length ws then Some (ws ! c1) else None)"
    by (simp add: resolve_def)
  with m c1 show 1: "map_of (inputs entry) (name (?inps ! i)) =
      (if ?k < length ws then Some (ws ! ?k) else None)"
    by simp
  assume "length (filter widget ?inps) \<le> length ws"
  moreover from a have "?k < length (filter widget ?inps)"
    by (intro filter_take_less) simp_all
  ultimately show "map_of (inputs entry) (name (?inps ! i)) = Some (ws ! ?k)"
    using 1 by simp
qed

text \<open>
  Claim C2 on a node with three widget-flagged inputs, the second linked, and three
  widgets: \<open>a\<close> takes slot 0 and \<open>c\<close> takes slot 2; slot 1 is skipped for the linked
  \<open>b\<close>.
\<close>

theorem positional_cursor_witness:
  "compile_node (links_index [\<lparr>link_id = 10, producer_node_id = 5, producer_slot_index = 0,
         consumer_node_id = 1, consumer_slot_index = 0\<rparr>])
     \<lparr>node_id = 1, node_type = ''TypeA'',
      node_inputs = [\<lparr>name = ''a'', link = None, widget = True\<rparr>,
                     \<lparr>name = ''b'', link = Some 10, widget = True\<rparr>,
                     \<lparr>name = ''c'', link = None, widget = True\<rparr>],
      widgets_values = WList [JInt 7, JInt 8, JInt 9]\<rparr>
   = Inr (''1'', \<lparr>class_type = ''TypeA'',
            inputs = [(''a'', JInt 7), (''b'', JList [JStr ''5'', JInt 0]), (''c'', JInt 9)]\<rparr>)
   \<and> map_of [(''a'', JInt 7), (''b'', JList [JStr ''5'', JInt 0]), (''c'', JInt 9)] ''c''
      = Some (JInt 9)"
proof -
  let ?L = "links_index [\<lparr>link_id = 10, producer_node_id = 5, producer_slot_index = 0,
         consumer_node_id = 1, consumer_slot_index = 0\<rparr>]"
  let ?ws = "[JInt 7, JInt 8, JInt 9]"
  let ?node = "\<lparr>node_id = 1, node_type = ''TypeA'',
      node_inputs = [\<lparr>name = ''a'', link = None, widget = True\<rparr>,
                     \<lparr>name = ''b'', link = Some 10, widget = True\<rparr>,
                     \<lparr>name = ''c'', link = None, widget = True\<rparr>],
      widgets_values = WList ?ws\<rparr>"
  let ?ins = "[(''a'', JInt 7), (''b'', JList [JStr ''5'', JInt 0]), (''c'', JInt 9)]"
  let ?entry = "\<lparr>class_type = ''TypeA'', inputs = ?ins\<rparr>"
  have c: "compile_node ?L ?node = Inr (''1'', ?entry)"
    by (simp add: compile_node_def links_index_def resolve_def reference_def
        str_int_def str_nat.simps)
  have h: "widgets_values ?node = WList ?ws" by simp
  have pre: "node_type ?node \<noteq> ''KSampler'' \<and> compile_node ?L ?node = Inr (''1'', ?entry)
              \<and> distinct (map name (node_inputs ?node)) \<and> 2 < length (node_inputs ?node)
              \<and> link (node_inputs ?node ! 2) = None \<and> widget (node_inputs ?node ! 2)"
    using c by simp
  from positional_cursor [where links = ?L, OF h, THEN conjunct2, THEN spec, THEN spec, THEN spec,
      THEN mp, OF pre, THEN conjunct1]
  have "map_of ?ins ''c'' = Some (JInt 9)" by simp
  with c show ?thesis by blast
qed

subsection \<open>The scenario of the spec\<close>

text \<open>
  Claim C9. The script run on the two-node graph writes exactly the two entries of the
  spec (no CLIPLoader node exists, so no node is added, and none of the forced edges has
  its target), and extracting that document with the keep-set \<open>{"2"}\<close> leaves node
  \<open>"2"\<close> with no input.
\<close>

theorem scenario_compile_extract:
  "convert \<lparr>data_nodes =
       [\<lparr>node_id = 1, node_type = ''TypeA'',
         node_inputs = [\<lparr>name = ''x'', link = None, widget = True\<rparr>],
         widgets_values = WList [JInt 5]\<rparr>,
        \<lparr>node_id = 2, node_type = ''TypeB'',
         node_inputs = [\<lparr>name = ''y'', link = Some 10, widget = False\<rparr>],
         widgets_values = WNone\<rparr>],
     data_links =
       [\<lparr>link_id = 10, producer_node_id = 1, producer_slot_index = 0,
         consumer_node_id = 2, consumer_slot_index = 0\<rparr>]\<rparr>
   = Inr [(''1'', \<lparr>class_type = ''TypeA'', inputs = [(''x'', JInt 5)]\<rparr>),
          (''2'', \<lparr>class_type = ''TypeB'', inputs = [(''y'', JList [JStr ''1'', JInt 0])]\<rparr>)]
   \<and> extract_doc
        [(''1'', \<lparr>class_type = ''TypeA'', inputs = [(''x'', JInt 5)]\<rparr>),
         (''2'', \<lparr>class_type = ''TypeB'', inputs = [(''y'', JList [JStr ''1'', JInt 0])]\<rparr>)]
        {''2''}
     = [(''2'', \<lparr>class_type = ''TypeB'', inputs = []\<rparr>)]
   \<and> fst (build [(''1'', 0), (''2'', 1)]
          (\<lambda>a. if a = 0 then \<lparr>class_type = ''TypeA'', inputs = [(''x'', JInt 5)]\<rparr>
               else \<lparr>class_type = ''TypeB'', inputs = [(''y'', JList [JStr ''1'', JInt 0])]\<rparr>)
          {''2''})
     = [(''2'', \<lparr>class_type = ''TypeB'', inputs = []\<rparr>)]"
  by (simp add: convert_def base_pass_def links_index_def compile_node_def resolve_def
      str_int_def str_nat.simps update_unet_def add_negative_def clip_loader_id_def
      wiring_def set_link_def reference_def extract_doc_def build_def dump_def)

subsection \<open>References of the compiled document\<close>

lemma is_reference_reference: "is_reference (reference p s)" "producer (reference p s) = p"
  by (simp_all add: reference_def)

lemma mapping_literal:
  assumes "mapping ty w = Some m" and "map_of m nm = Some x"
    and "\<forall>v \<in> set (widget_literals w). \<not> is_reference v"
  shows "\<not> is_reference x"
proof -
  from assms(1) obtain ws where w: "w = WList ws" and m: "m = ksampler_mapping ws"
    by (cases w) (auto split: if_splits)
  from assms(3) w have lit: "i < length ws \<Longrightarrow> \<not> is_reference (ws ! i)" for i
    by simp
  from assms(2) have "(nm, x) \<in> set (ksampler_mapping ws)"
    unfolding m by (rule map_of_SomeD)
  then show ?thesis
    by (auto simp: ksampler_mapping_def lit split: if_splits)
qed

lemma fallback_literal:
  assumes "fallback w nm c = (Some x, c')"
    and "\<forall>v \<in> set (widget_literals w). \<not> is_reference v"
  shows "\<not> is_reference x"
proof (cases w)
  case (WList ws)
  with assms show ?thesis by (auto split: if_splits)
next
  case (WDict d)
  with assms(1) have "(nm, x) \<in> set d" by (auto dest: map_of_SomeD)
  then have "x \<in> set (widget_literals w)" unfolding WDict by force
  with assms(2) show ?thesis by blast
next
  case WNone
  with assms show ?thesis by simp
qed

lemma resolve_reference:
  assumes "resolve links w (mapping ty w) inp c = Inr (Some x, c')" and "is_reference x"
    and "\<forall>v \<in> set (widget_literals w). \<not> is_reference v"
  shows "\<exists>l lk. link inp = Some l \<and> links l = Some lk \<and> producer x = str_int (producer_node_id lk)"
proof (cases "link inp")
  case (Some l)
  with assms(1) show ?thesis
    by (auto simp: resolve_def is_reference_reference split: option.splits)
next
  case None
  show ?thesis
  proof (cases "mapping ty w")
    case N: None
    with assms(1) None have "fallback w (name inp) c = (Some x, c')"
      by (auto simp: resolve_def split: if_splits)
    from fallback_literal [OF this assms(3)] assms(2) show ?thesis by simp
  next
    case (Some m)
    show ?thesis
    proof (cases "map_of m (name inp)")
      case N: None
      with assms(1) None Some have "fallback w (name inp) c = (Some x, c')"
        by (auto simp: resolve_def split: if_splits)
      from fallback_literal [OF this assms(3)] assms(2) show ?thesis by simp
    next
      case S: (Some y)
      with assms(1) None Some have "y = x" by (auto simp: resolve_def split: if_splits)
      with mapping_literal [OF Some S assms(3)] assms(2) show ?thesis by simp
    qed
  qed
qed

lemma compile_node_reference:
  assumes "compile_node links node = Inr (nid, entry)" and "(key, val) \<in> set (inputs entry)"
    and "is_reference val"
    and "\<forall>v \<in> set (widget_literals (widgets_values node)). \<not> is_reference v"
  shows "\<exists>inp \<in> set (node_inputs node). \<exists>l lk.
           link inp = Some l \<and> links l = Some lk \<and> producer val = str_int (producer_node_id lk)"
proof -
  from assms(1) obtain c' where
    l: "input_loop links (widgets_values node) (mapping (node_type node) (widgets_values node))
          (node_inputs node) ([], 0) = Inr (inputs entry, c')"
    by (auto simp: compile_node_def split: sum.splits)
  from input_loop_entries [OF l assms(2)] obtain inp c0 c1 where
    i: "inp \<in> set (node_inputs node)" and
    r: "resolve links (widgets_values node) (mapping (node_type node) (widgets_values node))
          inp c0 = Inr (Some val, c1)"
    by auto
  from resolve_reference [OF r assms(3,4)] i show ?thesis by blast
qed

lemma base_pass_no_dangling:
  assumes "base_pass data = Inr prompt"
    and "\<forall>n \<in> set (data_nodes data). \<forall>inp \<in> set (node_inputs n). \<forall>l lk.
           link inp = Some l \<and> links_index (data_links data) l = Some lk
           \<longrightarrow> producer_node_id lk \<in> node_id ` set (data_nodes data)"
    and "\<forall>n \<in> set (data_nodes data). \<forall>v \<in> set (widget_literals (widgets_values n)).
           \<not> is_reference v"
  shows "no_dangling prompt"
proof -
  let ?L = "links_index (data_links data)"
  from assms(1) have nl: "node_loop ?L (data_nodes data) [] = Inr prompt"
    by (simp add: base_pass_def)
  from node_loop_keys [OF nl]
  have keys: "fst ` set prompt = (\<lambda>n. str_int (node_id n)) ` set (data_nodes data)" by simp
  have "producer val \<in> fst ` set prompt"
    if e: "(nid, entry) \<in> set prompt" and v: "(key, val) \<in> set (inputs entry)"
      and r: "is_reference val"
    for nid entry key val
  proof -
    from node_loop_entries [OF nl e] obtain n where
      n: "n \<in> set (data_nodes data)" and c: "compile_node ?L n = Inr (nid, entry)"
      by auto
    from assms(3) n have "\<forall>v \<in> set (widget_literals (widgets_values n)). \<not> is_reference v"
      by blast
    from compile_node_reference [OF c v r this] obtain inp l lk where
      "inp \<in> set (node_inputs n)" "link inp = Some l" "?L l = Some lk"
      and p: "producer val = str_int (producer_node_id lk)"
      by blast
    with assms(2) n have "producer_node_id lk \<in> node_id ` set (data_nodes data)" by blast
    with p keys show ?thesis by auto
  qed
  then show ?thesis unfolding no_dangling_def by blast
qed

subsection \<open>Post-processing and referential integrity\<close>

lemma no_dangling_I:
  assumes "\<And>nid node key val. (nid, node) \<in> set flat \<Longrightarrow> (key, val) \<in> set (inputs node) \<Longrightarrow>
      is_reference val \<Longrightarrow> producer val \<in> fst ` set flat"
  shows "no_dangling flat"
  unfolding no_dangling_def using assms by blast

lemma no_dangling_D:
  "no_dangling flat \<Longrightarrow> (nid, node) \<in> set flat \<Longrightarrow> (key, val) \<in> set (inputs node) \<Longrightarrow>
     is_reference val \<Longrightarrow> producer val \<in> fst ` set flat"
  unfolding no_dangling_def by blast

lemma keys_update_unet: "fst ` set (update_unet prompt) = fst ` set prompt"
  by (force simp: update_unet_def image_iff)

lemma update_unet_no_dangling:
  assumes "no_dangling prompt"
  shows "no_dangling (update_unet prompt)"
proof (rule no_dangling_I)
  fix nid node' key val
  assume e: "(nid, node') \<in> set (update_unet prompt)" and v: "(key, val) \<in> set (inputs node')"
    and r: "is_reference val"
  from e obtain node where n: "(nid, node) \<in> set prompt"
    and n': "node' = node \<or> node' = node\<lparr>inputs := AList.update ''unet_name''
                    (JStr ''wan2.2-rapid-mega-aio-nsfw-v12.1-Q8_0.gguf'') (inputs node)\<rparr>"
    by (auto simp: update_unet_def split: if_splits)
  have "(key, val) \<in> set (inputs node)"
  proof (rule disjE [OF n'])
    assume "node' = node"
    with v show ?thesis by simp
  next
    assume "node' = node\<lparr>inputs := AList.update ''unet_name''
                    (JStr ''wan2.2-rapid-mega-aio-nsfw-v12.1-Q8_0.gguf'') (inputs node)\<rparr>"
    with v set_update_subset [of "''unet_name''" "JStr ''wan2.2-rapid-mega-aio-nsfw-v12.1-Q8_0.gguf''" "inputs node"]
    have "(key, val) = (''unet_name'', JStr ''wan2.2-rapid-mega-aio-nsfw-v12.1-Q8_0.gguf'')
        \<or> (key, val) \<in> set (inputs node)"
      by auto
    with r show ?thesis by auto
  qed
  from no_dangling_D [OF assms n this r] show "producer val \<in> fst ` set (update_unet prompt)"
    by (simp add: keys_update_unet)
qed

lemma clip_loader_id_key: "clip_loader_id prompt = Some c \<Longrightarrow> c \<in> fst ` set prompt"
proof -
  assume "clip_loader_id prompt = Some c"
  then obtain x where f: "find (\<lambda>(nid, node). class_type node = ''CLIPLoader'') prompt = Some x"
    and c: "c = fst x"
    by (auto simp: clip_loader_id_def)
  from f have "x \<in> set prompt" by (metis find_Some_iff nth_mem)
  with c show ?thesis by simp
qed

lemma keys_add_negative: "fst ` set prompt \<subseteq> fst ` set (add_negative neg_id prompt)"
  by (auto simp: add_negative_def keys_update split: option.splits)

lemma add_negative_no_dangling:
  assumes "no_dangling prompt"
  shows "no_dangling (add_negative neg_id prompt)"
proof (cases "clip_loader_id prompt")
  case None
  with assms show ?thesis by (simp add: add_negative_def)
next
  case (Some c)
  show ?thesis
  proof (cases "c = []")
    case True
    with Some assms show ?thesis by (simp add: add_negative_def)
  next
    case False
    let ?new = "\<lparr>class_type = ''CLIPTextEncode'',
                   inputs = [(''clip'', reference c 0), (''text'', JStr [])]\<rparr>"
    have eq: "add_negative neg_id prompt = AList.update neg_id ?new prompt"
      using Some False by (simp add: add_negative_def)
    show ?thesis
    proof (rule no_dangling_I)
      fix nid node key val
      assume e: "(nid, node) \<in> set (add_negative neg_id prompt)"
        and v: "(key, val) \<in> set (inputs node)" and r: "is_reference val"
      from e eq set_update_subset [of neg_id ?new prompt]
      consider "(nid, node) \<in> set prompt" | "node = ?new" by auto
      then have "producer val \<in> fst ` set prompt"
      proof cases
        case 1
        from no_dangling_D [OF assms 1 v r] show ?thesis .
      next
        case 2
        with v r have "val = reference c 0" by auto
        with clip_loader_id_key [OF Some] show ?thesis by (simp add: is_reference_reference)
      qed
      with keys_add_negative show "producer val \<in> fst ` set (add_negative neg_id prompt)"
        by blast
    qed
  qed
qed

lemma keys_set_link: "fst ` set (set_link nid nm src_id src_slot prompt) = fst ` set prompt"
proof (cases "map_of prompt (str nid)")
  case None
  then show ?thesis by (simp add: set_link_def)
next
  case (Some node)
  then have "str nid \<in> fst ` set prompt" by (metis map_of_eq_None_iff option.distinct(1))
  with Some show ?thesis by (auto simp: set_link_def keys_update)
qed

lemma set_link_no_dangling:
  assumes "no_dangling prompt"
    and "str nid \<in> fst ` set prompt \<longrightarrow> str src_id \<in> fst ` set prompt"
  shows "no_dangling (set_link nid nm src_id src_slot prompt)"
proof (cases "map_of prompt (str nid)")
  case None
  with assms(1) show ?thesis by (simp add: set_link_def)
next
  case (Some node)
  let ?new = "node\<lparr>inputs := AList.update nm (reference (str src_id) src_slot) (inputs node)\<rparr>"
  have eq: "set_link nid nm src_id src_slot prompt = AList.update (str nid) ?new prompt"
    using Some by (simp add: set_link_def)
  from Some have mem: "(str nid, node) \<in> set prompt" by (rule map_of_SomeD)
  then have key: "str nid \<in> fst ` set prompt" by force
  show ?thesis
  proof (rule no_dangling_I)
    fix k node' key val
    assume e: "(k, node') \<in> set (set_link nid nm src_id src_slot prompt)"
      and v: "(key, val) \<in> set (inputs node')" and r: "is_reference val"
    from e eq set_update_subset [of "str nid" ?new prompt]
    consider "(k, node') \<in> set prompt" | "node' = ?new" by auto
    then have "producer val \<in> fst ` set prompt"
    proof cases
      case 1
      from no_dangling_D [OF assms(1) 1 v r] show ?thesis .
    next
      case 2
      with v set_update_subset [of nm "reference (str src_id) src_slot" "inputs node"]
      consider "val = reference (str src_id) src_slot" | "(key, val) \<in> set (inputs node)"
        by auto
      then show ?thesis
      proof cases
        case 1
        with assms(2) key show ?thesis by (simp add: is_reference_reference)
      next
        case 2
        from no_dangling_D [OF assms(1) mem 2 r] show ?thesis .
      qed
    qed
    then show "producer val \<in> fst ` set (set_link nid nm src_id src_slot prompt)"
      by (simp add: keys_set_link)
  qed
qed

lemma keys_wiring: "fst ` set (wiring neg_id prompt) = fst ` set prompt"
  by (simp add: wiring_def keys_set_link)

lemma wiring_no_dangling:
  assumes "no_dangling prompt"
    and "\<forall>(c, p) \<in> set [(''8'', ''32''), (''55'', ''32''), (''28'', ''53''), (''54'', ''53''),
            (''11'', ''53''), (''56'', ''53''), (''28'', ''9''), (''54'', ''9''),
            (''28'', neg_id), (''54'', neg_id)].
          c \<in> fst ` set prompt \<longrightarrow> p \<in> fst ` set prompt"
  shows "no_dangling (wiring neg_id prompt)"
  unfolding wiring_def using assms
  by (intro set_link_no_dangling) (simp_all add: keys_set_link)

subsection \<open>The added node\<close>

lemma str_int_nonempty: "str_int i \<noteq> []"
  by (simp add: str_int_def str_nat_nonempty)

lemma compile_node_class:
  "compile_node links node = Inr (nid, entry) \<Longrightarrow> class_type entry = node_type node"
  by (auto simp: compile_node_def split: sum.splits)

lemma update_unet_class:
  "(nid, node) \<in> set prompt \<Longrightarrow>
     \<exists>node'. (nid, node') \<in> set (update_unet prompt) \<and> class_type node' = class_type node"
  by (force simp: update_unet_def image_iff)

lemma update_unet_class_rev:
  "(nid, node') \<in> set (update_unet prompt) \<Longrightarrow>
     \<exists>node. (nid, node) \<in> set prompt \<and> class_type node' = class_type node"
  by (auto simp: update_unet_def)

lemma base_pass_keys:
  "base_pass data = Inr prompt \<Longrightarrow>
     fst ` set prompt = (\<lambda>n. str_int (node_id n)) ` set (data_nodes data)"
proof -
  assume "base_pass data = Inr prompt"
  then have "node_loop (links_index (data_links data)) (data_nodes data) [] = Inr prompt"
    by (simp add: base_pass_def)
  from node_loop_keys [OF this] show ?thesis by simp
qed

lemma base_pass_succeeds:
  assumes "\<forall>n \<in> set (data_nodes data). \<forall>inp \<in> set (node_inputs n). \<forall>l. link inp = Some l \<longrightarrow>
             links_index (data_links data) l \<noteq> None"
  shows "\<exists>prompt. base_pass data = Inr prompt"
proof (cases "base_pass data")
  case (Inl e)
  then have "node_loop (links_index (data_links data)) (data_nodes data) [] = Inl e"
    by (simp add: base_pass_def)
  from node_loop_Inl [OF this] assms show ?thesis by blast
next
  case (Inr prompt)
  then show ?thesis by blast
qed

lemma clip_loader_present:
  assumes "base_pass data = Inr prompt" and "distinct (map node_id (data_nodes data))"
    and "n \<in> set (data_nodes data)" and "node_type n = ''CLIPLoader''"
  shows "\<exists>c. clip_loader_id (update_unet prompt) = Some c \<and> c \<noteq> []"
proof -
  from assms(1) have nl: "node_loop (links_index (data_links data)) (data_nodes data) [] = Inr prompt"
    by (simp add: base_pass_def)
  from node_loop_lookup [OF nl assms(2,3)] obtain entry where
    c: "compile_node (links_index (data_links data)) n = Inr (str_int (node_id n), entry)" and
    m: "map_of prompt (str_int (node_id n)) = Some entry"
    by blast
  from m have "(str_int (node_id n), entry) \<in> set prompt" by (rule map_of_SomeD)
  from update_unet_class [OF this] compile_node_class [OF c] assms(4)
  obtain node' where "(str_int (node_id n), node') \<in> set (update_unet prompt)"
    "class_type node' = ''CLIPLoader''"
    by auto
  then have "find (\<lambda>(nid, node). class_type node = ''CLIPLoader'') (update_unet prompt) \<noteq> None"
    by (auto simp: find_None_iff)
  then obtain c where c: "clip_loader_id (update_unet prompt) = Some c"
    by (auto simp: clip_loader_id_def)
  from clip_loader_id_key [OF c] have "c \<in> fst ` set prompt" by (simp add: keys_update_unet)
  with base_pass_keys [OF assms(1)] have "c \<noteq> []" by (auto simp: str_int_nonempty)
  with c show ?thesis by blast
qed

lemma clip_loader_absent:
  assumes "base_pass data = Inr prompt"
    and "\<forall>n \<in> set (data_nodes data). node_type n \<noteq> ''CLIPLoader''"
  shows "clip_loader_id (update_unet prompt) = None"
proof -
  from assms(1) have nl: "node_loop (links_index (data_links data)) (data_nodes data) [] = Inr prompt"
    by (simp add: base_pass_def)
  have "class_type node' \<noteq> ''CLIPLoader''" if "(nid, node') \<in> set (update_unet prompt)"
    for nid node'
  proof -
    from update_unet_class_rev [OF that] obtain node where
      e: "(nid, node) \<in> set prompt" and cl: "class_type node' = class_type node"
      by blast
    from node_loop_entries [OF nl e] obtain n where
      "n \<in> set (data_nodes data)" "compile_node (links_index (data_links data)) n = Inr (nid, node)"
      by auto
    with compile_node_class assms(2) cl show ?thesis by metis
  qed
  then have "find (\<lambda>(nid, node). class_type node = ''CLIPLoader'') (update_unet prompt) = None"
    by (auto simp: find_None_iff)
  then show ?thesis by (simp add: clip_loader_id_def)
qed

lemma keys_add_negative_present:
  "clip_loader_id prompt = Some c \<Longrightarrow> c \<noteq> [] \<Longrightarrow>
     fst ` set (add_negative neg_id prompt) = insert neg_id (fst ` set prompt)"
  by (simp add: add_negative_def keys_update)

lemma add_negative_absent: "clip_loader_id prompt = None \<Longrightarrow> add_negative neg_id prompt = prompt"
  by (simp add: add_negative_def)

subsection \<open>Referential integrity of the output\<close>

text \<open>
  Claim C3 as stated fails on a graph with no link at all: its only node has id 8, so
  the forced edge of line 97 gives it the input \<open>model\<close> with the producer \<open>"32"\<close>,
  which is not a node of the graph. \<open>set_link\<close> looks up the consumer only.
\<close>

theorem compiled_references_counterexample:
  "convert \<lparr>data_nodes =
       [\<lparr>node_id = 8, node_type = ''KSampler'', node_inputs = [], widgets_values = WNone\<rparr>],
     data_links = []\<rparr>
   = Inr [(''8'', \<lparr>class_type = ''KSampler'',
            inputs = [(''model'', JList [JStr ''32'', JInt 0])]\<rparr>)]
   \<and> \<not> no_dangling [(''8'', \<lparr>class_type = ''KSampler'',
            inputs = [(''model'', JList [JStr ''32'', JInt 0])]\<rparr>)]"
  by (simp add: convert_def base_pass_def links_index_def compile_node_def
      str_int_def str_nat.simps update_unet_def add_negative_def clip_loader_id_def
      wiring_def set_link_def reference_def no_dangling_def)

text \<open>
  Claim C3, amended. Take a raw graph with at least one node (\<open>m\<close> its largest id) and
  unique node ids, in which every declared link id is in the links table with a producer
  that is a node of the graph, and whose widget values are not reference-shaped. The keys
  \<open>K\<close> of the output are the ids of the graph's nodes and, when the graph has a
  CLIPLoader node, the id \<open>m + 1\<close> of the node that is added then. Provided that
  every forced edge to one of the fixed producers \<open>"32"\<close>, \<open>"53"\<close> and \<open>"9"\<close> whose consumer is
  in \<open>K\<close> has its producer in \<open>K\<close> (\<open>set_link\<close> does not check that), and that the graph
  has a CLIPLoader node or none of the nodes 28 and 54, the script succeeds and its output
  has exactly the keys \<open>K\<close> and no dangling reference: the base pass, the field override
  and the added node bring none, and the edges to the added node resolve because it was
  added. (A graph with node 28 or 54 and no CLIPLoader is not covered.)
\<close>

theorem compiled_references_resolve:
  assumes "max_id (data_nodes data) = Inr m"
    and "distinct (map node_id (data_nodes data))"
    and "\<forall>n \<in> set (data_nodes data). \<forall>inp \<in> set (node_inputs n). \<forall>l. link inp = Some l \<longrightarrow>
           (\<exists>lk. links_index (data_links data) l = Some lk
              \<and> producer_node_id lk \<in> node_id ` set (data_nodes data))"
    and "\<forall>n \<in> set (data_nodes data). \<forall>v \<in> set (widget_literals (widgets_values n)).
           \<not> is_reference v"
    and "K = (\<lambda>n. str_int (node_id n)) ` set (data_nodes data)
            \<union> (if \<exists>n \<in> set (data_nodes data). node_type n = ''CLIPLoader''
               then {str_int (m + 1)} else {})"
    and "\<forall>(c, p) \<in> set [(''8'', ''32''), (''55'', ''32''), (''28'', ''53''), (''54'', ''53''),
              (''11'', ''53''), (''56'', ''53''), (''28'', ''9''), (''54'', ''9'')]. c \<in> K \<longrightarrow> p \<in> K"
    and "(\<exists>n \<in> set (data_nodes data). node_type n = ''CLIPLoader'')
           \<or> (''28'' \<notin> K \<and> ''54'' \<notin> K)"
  shows "\<exists>out. convert data = Inr out \<and> fst ` set out = K \<and> no_dangling out"
proof -
  let ?neg = "str_int (m + 1)"
  have "\<forall>n \<in> set (data_nodes data). \<forall>inp \<in> set (node_inputs n). \<forall>l. link inp = Some l \<longrightarrow>
             links_index (data_links data) l \<noteq> None"
    using assms(3) by fastforce
  from base_pass_succeeds [OF this] obtain prompt where b: "base_pass data = Inr prompt"
    by blast
  let ?p = "add_negative ?neg (update_unet prompt)"
  let ?out = "wiring ?neg ?p"
  have out: "convert data = Inr ?out"
    using b assms(1) by (simp add: convert_def)
  from assms(3) have "\<forall>n \<in> set (data_nodes data). \<forall>inp \<in> set (node_inputs n). \<forall>l lk.
           link inp = Some l \<and> links_index (data_links data) l = Some lk
           \<longrightarrow> producer_node_id lk \<in> node_id ` set (data_nodes data)"
    by fastforce
  from base_pass_no_dangling [OF b this assms(4)] have "no_dangling prompt" .
  then have p: "no_dangling ?p"
    by (intro add_negative_no_dangling update_unet_no_dangling)
  have ids: "fst ` set (update_unet prompt) = (\<lambda>n. str_int (node_id n)) ` set (data_nodes data)"
    by (simp add: keys_update_unet base_pass_keys [OF b])
  have keys: "fst ` set ?p = K \<and> ((\<exists>n \<in> set (data_nodes data). node_type n = ''CLIPLoader'')
      \<longrightarrow> ?neg \<in> K)"
  proof (cases "\<exists>n \<in> set (data_nodes data). node_type n = ''CLIPLoader''")
    case True
    then obtain n where "n \<in> set (data_nodes data)" "node_type n = ''CLIPLoader''" by blast
    from clip_loader_present [OF b assms(2) this] obtain c where
      "clip_loader_id (update_unet prompt) = Some c" "c \<noteq> []"
      by blast
    from keys_add_negative_present [OF this] ids True assms(5) show ?thesis by auto
  next
    case False
    then have "clip_loader_id (update_unet prompt) = None"
      by (intro clip_loader_absent [OF b]) blast
    from add_negative_absent [OF this] ids False assms(5) show ?thesis by auto
  qed
  from assms(7) keys have neg: "''28'' \<in> K \<longrightarrow> ?neg \<in> K" "''54'' \<in> K \<longrightarrow> ?neg \<in> K"
    by blast+
  from assms(6) have fixed: "''8'' \<in> K \<longrightarrow> ''32'' \<in> K" "''55'' \<in> K \<longrightarrow> ''32'' \<in> K"
    "''28'' \<in> K \<longrightarrow> ''53'' \<in> K" "''54'' \<in> K \<longrightarrow> ''53'' \<in> K"
    "''11'' \<in> K \<longrightarrow> ''53'' \<in> K" "''56'' \<in> K \<longrightarrow> ''53'' \<in> K"
    "''28'' \<in> K \<longrightarrow> ''9'' \<in> K" "''54'' \<in> K \<longrightarrow> ''9'' \<in> K"
    by simp_all
  have "\<forall>(c, p) \<in> set [(''8'', ''32''), (''55'', ''32''), (''28'', ''53''), (''54'', ''53''),
            (''11'', ''53''), (''56'', ''53''), (''28'', ''9''), (''54'', ''9''),
            (''28'', ?neg), (''54'', ?neg)].
          c \<in> fst ` set ?p \<longrightarrow> p \<in> fst ` set ?p"
    unfolding conjunct1 [OF keys] using fixed neg by simp
  from wiring_no_dangling [OF p this] have "no_dangling ?out" .
  moreover have "fst ` set ?out = K" using keys by (simp add: keys_wiring)
  ultimately show ?thesis using out by blast
qed

text \<open>
  Claim C3 on a graph that holds the producers of the forced edges (nodes 9, 32 and 53)
  and a CLIPLoader (node 96): node 97 is added, node 28 is wired to 53, 9 and 97, and
  every reference of the output names a key of the output.
\<close>

theorem compiled_references_resolve_witness:
  "convert \<lparr>data_nodes =
       [\<lparr>node_id = 9, node_type = ''CLIPTextEncode'',
         node_inputs = [\<lparr>name = ''clip'', link = Some 1, widget = False\<rparr>,
                        \<lparr>name = ''text'', link = None, widget = True\<rparr>],
         widgets_values = WList [JStr ''a cat'']\<rparr>,
        \<lparr>node_id = 28, node_type = ''WanVaceToVideo'', node_inputs = [],
         widgets_values = WNone\<rparr>,
        \<lparr>node_id = 32, node_type = ''ModelSamplingSD3'', node_inputs = [],
         widgets_values = WNone\<rparr>,
        \<lparr>node_id = 53, node_type = ''VAELoader'', node_inputs = [],
         widgets_values = WNone\<rparr>,
        \<lparr>node_id = 96, node_type = ''CLIPLoader'', node_inputs = [],
         widgets_values = WNone\<rparr>],
     data_links =
       [\<lparr>link_id = 1, producer_node_id = 96, producer_slot_index = 0,
         consumer_node_id = 9, consumer_slot_index = 0\<rparr>]\<rparr> = Inr [(''9'', \<lparr>class_type = ''CLIPTextEncode'',
           inputs = [(''clip'', JList [JStr ''96'', JInt 0]), (''text'', JStr ''a cat'')]\<rparr>),
      (''28'', \<lparr>class_type = ''WanVaceToVideo'',
            inputs = [(''vae'', JList [JStr ''53'', JInt 0]),
                      (''positive'', JList [JStr ''9'', JInt 0]),
                      (''negative'', JList [JStr ''97'', JInt 0])]\<rparr>),
      (''32'', \<lparr>class_type = ''ModelSamplingSD3'', inputs = []\<rparr>),
      (''53'', \<lparr>class_type = ''VAELoader'', inputs = []\<rparr>),
      (''96'', \<lparr>class_type = ''CLIPLoader'', inputs = []\<rparr>),
      (''97'', \<lparr>class_type = ''CLIPTextEncode'',
            inputs = [(''clip'', JList [JStr ''96'', JInt 0]), (''text'', JStr [])]\<rparr>)] \<and> no_dangling [(''9'', \<lparr>class_type = ''CLIPTextEncode'',
           inputs = [(''clip'', JList [JStr ''96'', JInt 0]), (''text'', JStr ''a cat'')]\<rparr>),
      (''28'', \<lparr>class_type = ''WanVaceToVideo'',
            inputs = [(''vae'', JList [JStr ''53'', JInt 0]),
                      (''positive'', JList [JStr ''9'', JInt 0]),
                      (''negative'', JList [JStr ''97'', JInt 0])]\<rparr>),
      (''32'', \<lparr>class_type = ''ModelSamplingSD3'', inputs = []\<rparr>),
      (''53'', \<lparr>class_type = ''VAELoader'', inputs = []\<rparr>),
      (''96'', \<lparr>class_type = ''CLIPLoader'', inputs = []\<rparr>),
      (''97'', \<lparr>class_type = ''CLIPTextEncode'',
            inputs = [(''clip'', JList [JStr ''96'', JInt 0]), (''text'', JStr [])]\<rparr>)]"
proof -
  let ?data = "\<lparr>data_nodes =
       [\<lparr>node_id = 9, node_type = ''CLIPTextEncode'',
         node_inputs = [\<lparr>name = ''clip'', link = Some 1, widget = False\<rparr>,
                        \<lparr>name = ''text'', link = None, widget = True\<rparr>],
         widgets_values = WList [JStr ''a cat'']\<rparr>,
        \<lparr>node_id = 28, node_type = ''WanVaceToVideo'', node_inputs = [],
         widgets_values = WNone\<rparr>,
        \<lparr>node_id = 32, node_type = ''ModelSamplingSD3'', node_inputs = [],
         widgets_values = WNone\<rparr>,
        \<lparr>node_id = 53, node_type = ''VAELoader'', node_inputs = [],
         widgets_values = WNone\<rparr>,
        \<lparr>node_id = 96, node_type = ''CLIPLoader'', node_inputs = [],
         widgets_values = WNone\<rparr>],
     data_links =
       [\<lparr>link_id = 1, producer_node_id = 96, producer_slot_index = 0,
         consumer_node_id = 9, consumer_slot_index = 0\<rparr>]\<rparr>"
  let ?out = "[(''9'', \<lparr>class_type = ''CLIPTextEncode'',
           inputs = [(''clip'', JList [JStr ''96'', JInt 0]), (''text'', JStr ''a cat'')]\<rparr>),
      (''28'', \<lparr>class_type = ''WanVaceToVideo'',
            inputs = [(''vae'', JList [JStr ''53'', JInt 0]),
                      (''positive'', JList [JStr ''9'', JInt 0]),
                      (''negative'', JList [JStr ''97'', JInt 0])]\<rparr>),
      (''32'', \<lparr>class_type = ''ModelSamplingSD3'', inputs = []\<rparr>),
      (''53'', \<lparr>class_type = ''VAELoader'', inputs = []\<rparr>),
      (''96'', \<lparr>class_type = ''CLIPLoader'', inputs = []\<rparr>),
      (''97'', \<lparr>class_type = ''CLIPTextEncode'',
            inputs = [(''clip'', JList [JStr ''96'', JInt 0]), (''text'', JStr [])]\<rparr>)]"
  let ?K = "(\<lambda>n. str_int (node_id n)) ` set (data_nodes \<lparr>data_nodes =
       [\<lparr>node_id = 9, node_type = ''CLIPTextEncode'',
         node_inputs = [\<lparr>name = ''clip'', link = Some 1, widget = False\<rparr>,
                        \<lparr>name = ''text'', link = None, widget = True\<rparr>],
         widgets_values = WList [JStr ''a cat'']\<rparr>,
        \<lparr>node_id = 28, node_type = ''WanVaceToVideo'', node_inputs = [],
         widgets_values = WNone\<rparr>,
        \<lparr>node_id = 32, node_type = ''ModelSamplingSD3'', node_inputs = [],
         widgets_values = WNone\<rparr>,
        \<lparr>node_id = 53, node_type = ''VAELoader'', node_inputs = [],
         widgets_values = WNone\<rparr>,
        \<lparr>node_id = 96, node_type = ''CLIPLoader'', node_inputs = [],
         widgets_values = WNone\<rparr>],
     data_links =
       [\<lparr>link_id = 1, producer_node_id = 96, producer_slot_index = 0,
         consumer_node_id = 9, consumer_slot_index = 0\<rparr>]\<rparr>)
            \<union> (if \<exists>n \<in> set (data_nodes \<lparr>data_nodes =
       [\<lparr>node_id = 9, node_type = ''CLIPTextEncode'',
         node_inputs = [\<lparr>name = ''clip'', link = Some 1, widget = False\<rparr>,
                        \<lparr>name = ''text'', link = None, widget = True\<rparr>],
         widgets_values = WList [JStr ''a cat'']\<rparr>,
        \<lparr>node_id = 28, node_type = ''WanVaceToVideo'', node_inputs = [],
         widgets_values = WNone\<rparr>,
        \<lparr>node_id = 32, node_type = ''ModelSamplingSD3'', node_inputs = [],
         widgets_values = WNone\<rparr>,
        \<lparr>node_id = 53, node_type = ''VAELoader'', node_inputs = [],
         widgets_values = WNone\<rparr>,
        \<lparr>node_id = 96, node_type = ''CLIPLoader'', node_inputs = [],
         widgets_values = WNone\<rparr>],
     data_links =
       [\<lparr>link_id = 1, producer_node_id = 96, producer_slot_index = 0,
         consumer_node_id = 9, consumer_slot_index = 0\<rparr>]\<rparr>). node_type n = ''CLIPLoader''
               then {str_int (96 + 1)} else {})"
  have c: "convert ?data = Inr ?out"
    by (simp add: convert_def base_pass_def links_index_def compile_node_def resolve_def
        str_int_def str_nat.simps update_unet_def add_negative_def clip_loader_id_def
        wiring_def set_link_def reference_def)
  have h1: "max_id (data_nodes ?data) = Inr 96" by simp
  have h2: "distinct (map node_id (data_nodes ?data))" by simp
  have h3: "\<forall>n \<in> set (data_nodes ?data). \<forall>inp \<in> set (node_inputs n). \<forall>l. link inp = Some l \<longrightarrow>
             (\<exists>lk. links_index (data_links ?data) l = Some lk
                \<and> producer_node_id lk \<in> node_id ` set (data_nodes ?data))"
    by (simp add: links_index_def)
  have h4: "\<forall>n \<in> set (data_nodes ?data). \<forall>v \<in> set (widget_literals (widgets_values n)).
           \<not> is_reference v"
    by simp
  have h5: "?K = ?K" by (rule refl)
  have K: "?K = {''9'', ''28'', ''32'', ''53'', ''96'', ''97''}"
    by (auto simp: str_int_def str_nat.simps)
  have h6: "\<forall>(c, p) \<in> set [(''8'', ''32''), (''55'', ''32''), (''28'', ''53''), (''54'', ''53''),
              (''11'', ''53''), (''56'', ''53''), (''28'', ''9''), (''54'', ''9'')]. c \<in> ?K \<longrightarrow> p \<in> ?K"
    unfolding K by simp
  have h7: "(\<exists>n \<in> set (data_nodes ?data). node_type n = ''CLIPLoader'')
           \<or> (''28'' \<notin> ?K \<and> ''54'' \<notin> ?K)"
    by simp
  from compiled_references_resolve [OF h1 h2 h3 h4 h5 h6 h7] c show ?thesis by simp
qed

end
